theory Spec2Isabelle
  imports Main "HOL-Library.Multiset"
begin

section \<open>Data model (src/types/store.ts)\<close>

text \<open>
  The interfaces \<^verbatim>\<open>Comment\<close>, \<^verbatim>\<open>CardType\<close> and \<^verbatim>\<open>ColumnType\<close>.
  Field names are global constants in HOL, and \<^verbatim>\<open>id\<close> is the identity function,
  so the fields carry the owner's name as a prefix. Ids are JavaScript numbers that
  only ever hold integers (seed literals and \<^verbatim>\<open>Date.now()\<close>): they are \<^typ>\<open>int\<close>.
  An optional field is an \<^typ>\<open>'a option\<close>.
\<close>

record Comment =
  comment_id :: string
  comment_text :: string
  comment_author :: "string option"
  comment_createdAt :: int

record CardType =
  card_id :: int
  card_title :: string
  card_description :: "string option"
  card_comments :: "Comment list"

record ColumnType =
  col_id :: int
  col_title :: string
  items :: "CardType list"

text \<open>The data part of \<^verbatim>\<open>BoardState\<close> in src/store/useBoardStore.ts.\<close>

record BoardState =
  boardTitle :: string
  hasHydrated :: bool
  columns :: "ColumnType list"

section \<open>JavaScript array primitives used by the store\<close>

text \<open>
  \<^verbatim>\<open>Array.prototype.findIndex\<close>: the index of the first element that satisfies
  the predicate, \<open>-1\<close> when there is none.
\<close>

fun findIndex :: "('a \<Rightarrow> bool) \<Rightarrow> 'a list \<Rightarrow> int" where
  "findIndex P [] = -1"
| "findIndex P (x # xs) =
     (if P x then 0 else (let r = findIndex P xs in if r = -1 then -1 else r + 1))"

text \<open>
  The start position of \<^verbatim>\<open>Array.prototype.splice(start, ...)\<close> on an array of
  length \<open>len\<close>, for an integral \<open>start\<close>: a negative start counts from the end
  and stops at \<open>0\<close>, a start past the end is the length.
\<close>

definition spliceStart :: "int \<Rightarrow> nat \<Rightarrow> nat" where
  "spliceStart start len =
     (if start < 0 then nat (max (int len + start) 0) else min (nat start) len)"

text \<open>\<^verbatim>\<open>a.splice(start, 0, x)\<close>: insert \<open>x\<close>, delete nothing.\<close>

definition spliceInsert :: "int \<Rightarrow> 'a \<Rightarrow> 'a list \<Rightarrow> 'a list" where
  "spliceInsert start x a =
     (let k = spliceStart start (length a) in take k a @ x # drop k a)"

text \<open>
  \<^verbatim>\<open>ids.map((i) => xs.find((x) => key(x) === i)).filter((x) => x !== undefined)\<close>,
  the pattern of \<^verbatim>\<open>reorderCardsInColumn\<close> and \<^verbatim>\<open>reorderColumns\<close>:
  \<open>find\<close> gives \<open>None\<close> for \<^verbatim>\<open>undefined\<close>, and the filter keeps the rest.
\<close>

definition mapFindFilter :: "('a \<Rightarrow> int) \<Rightarrow> 'a list \<Rightarrow> int list \<Rightarrow> 'a list" where
  "mapFindFilter key xs ids =
     map the (filter (\<lambda>r. r \<noteq> None) (map (\<lambda>i. find (\<lambda>x. key x = i) xs) ids))"

section \<open>The store actions (src/store/useBoardStore.ts)\<close>

text \<open>
  Each action is \<^verbatim>\<open>set((state) => ...)\<close>: a function from the state to the next
  state, where zustand merges the returned partial object into the state, so the
  fields that the action does not name keep their values. \<^verbatim>\<open>Date.now()\<close> is an
  input of the model: the parameter \<open>now\<close>.
\<close>

definition addCard :: "int \<Rightarrow> string \<Rightarrow> int \<Rightarrow> BoardState \<Rightarrow> BoardState" where
  "addCard columnId title now state =
     state\<lparr>columns :=
       map (\<lambda>column.
              if col_id column = columnId
              then column\<lparr>items := items column @
                     [\<lparr>card_id = now, card_title = title,
                       card_description = None, card_comments = []\<rparr>]\<rparr>
              else column)
           (columns state)\<rparr>"

definition moveCard :: "int \<Rightarrow> int \<Rightarrow> int \<Rightarrow> int \<Rightarrow> BoardState \<Rightarrow> BoardState" where
  "moveCard cardId fromColumnId toColumnId newIndex state =
     (let fromColumn = find (\<lambda>col. col_id col = fromColumnId) (columns state);
          cardToMove = (case fromColumn of
                          None \<Rightarrow> None
                        | Some fc \<Rightarrow> find (\<lambda>item. card_id item = cardId) (items fc))
      in case cardToMove of
           None \<Rightarrow> state
         | Some moved \<Rightarrow>
             (let columnsWithoutCard =
                    map (\<lambda>column.
                           if col_id column = fromColumnId
                           then column\<lparr>items :=
                                  filter (\<lambda>item. card_id item \<noteq> cardId) (items column)\<rparr>
                           else column)
                        (columns state);
                  updatedColumns =
                    map (\<lambda>column.
                           if col_id column = toColumnId
                           then column\<lparr>items := spliceInsert newIndex moved (items column)\<rparr>
                           else column)
                        columnsWithoutCard
              in state\<lparr>columns := updatedColumns\<rparr>))"

definition reorderCardsInColumn :: "int \<Rightarrow> int list \<Rightarrow> BoardState \<Rightarrow> BoardState" where
  "reorderCardsInColumn columnId cardIds state =
     state\<lparr>columns :=
       map (\<lambda>column.
              if col_id column = columnId
              then column\<lparr>items := mapFindFilter card_id (items column) cardIds\<rparr>
              else column)
           (columns state)\<rparr>"

definition addColumn :: "string \<Rightarrow> int \<Rightarrow> BoardState \<Rightarrow> BoardState" where
  "addColumn title now state =
     state\<lparr>columns := columns state @ [\<lparr>col_id = now, col_title = title, items = []\<rparr>]\<rparr>"

definition deleteColumn :: "int \<Rightarrow> BoardState \<Rightarrow> BoardState" where
  "deleteColumn columnId state =
     state\<lparr>columns := filter (\<lambda>column. col_id column \<noteq> columnId) (columns state)\<rparr>"

definition reorderColumns :: "int list \<Rightarrow> BoardState \<Rightarrow> BoardState" where
  "reorderColumns columnIds state =
     state\<lparr>columns := mapFindFilter col_id (columns state) columnIds\<rparr>"

text \<open>The seed data of the store, \<^verbatim>\<open>initialColumns\<close>, and the initial state.\<close>

definition initialColumns :: "ColumnType list" where
  "initialColumns =
     [\<lparr>col_id = 3453453434, col_title = ''Todo'', items =
         [\<lparr>card_id = 123134, card_title = ''Create interview'',
           card_description = None, card_comments = []\<rparr>,
          \<lparr>card_id = 12423423434, card_title = ''Review Drag & Drop'',
           card_description = None, card_comments = []\<rparr>]\<rparr>,
      \<lparr>col_id = 2, col_title = ''In Progress'', items =
         [\<lparr>card_id = 345345243534, card_title = ''Set up Next.js project'',
           card_description = None, card_comments = []\<rparr>]\<rparr>,
      \<lparr>col_id = 3, col_title = ''Done'', items = []\<rparr>]"

definition initialState :: BoardState where
  "initialState = \<lparr>boardTitle = ''Demo Board'', hasHydrated = False, columns = initialColumns\<rparr>"

subsection \<open>Calls of the action API\<close>

text \<open>
  A call of one of the list-changing actions, as a value, so that a component can be
  said to call an action and a sequence of calls can be replayed on a state. The
  clock reading that \<open>addCard\<close> and \<open>addColumn\<close> take is part of the call.
\<close>

datatype StoreCall =
    AddCard int string int
  | MoveCard int int int int
  | ReorderCardsInColumn int "int list"
  | AddColumn string int
  | DeleteColumn int
  | ReorderColumns "int list"

fun dispatch :: "StoreCall \<Rightarrow> BoardState \<Rightarrow> BoardState" where
  "dispatch (AddCard columnId title now) state = addCard columnId title now state"
| "dispatch (MoveCard cardId fromColumnId toColumnId newIndex) state =
     moveCard cardId fromColumnId toColumnId newIndex state"
| "dispatch (ReorderCardsInColumn columnId cardIds) state =
     reorderCardsInColumn columnId cardIds state"
| "dispatch (AddColumn title now) state = addColumn title now state"
| "dispatch (DeleteColumn columnId) state = deleteColumn columnId state"
| "dispatch (ReorderColumns columnIds) state = reorderColumns columnIds state"

fun dispatchAll :: "StoreCall list \<Rightarrow> BoardState \<Rightarrow> BoardState" where
  "dispatchAll [] state = state"
| "dispatchAll (c # cs) state = dispatchAll cs (dispatch c state)"

text \<open>
  Modelled from the spec: the \<^verbatim>\<open>persist\<close> middleware of zustand that wraps the store
  is library code, not in src/. By section 4.1 of the specification every mutation
  triggers a synchronous persistence write of the full board snapshot; the store
  options of the source give the version \<open>2\<close> that is written with it. The store is
  the in-memory state with the snapshot last written (\<open>None\<close> before the first write).
\<close>

record Store =
  current :: BoardState
  storage :: "(BoardState \<times> int) option"

definition persistedCall :: "StoreCall \<Rightarrow> Store \<Rightarrow> Store" where
  "persistedCall c store =
     (let next = dispatch c (current store)
      in \<lparr>current = next, storage = Some (next, 2)\<rparr>)"

fun persistedCalls :: "StoreCall list \<Rightarrow> Store \<Rightarrow> Store" where
  "persistedCalls [] store = store"
| "persistedCalls (c # cs) store = persistedCalls cs (persistedCall c store)"

section \<open>The drag handlers (src/components/DndBoard.tsx)\<close>

text \<open>
  What the handlers read of a dnd-kit event: the id of the dragged element
  (\<^verbatim>\<open>active.id\<close>), the value of \<^verbatim>\<open>data.current?.type\<close> that the sortable
  elements set (\<^verbatim>\<open>'column'\<close> in SortableColumn.tsx, \<^verbatim>\<open>'card'\<close> in Card.tsx, \<open>None\<close>
  when there is no data), and the same for the element under the pointer, \<^verbatim>\<open>over\<close>,
  which is \<^verbatim>\<open>null\<close> when there is none.
\<close>

datatype DragType = ColumnDrag | CardDrag

record Draggable =
  drag_id :: int
  drag_type :: "DragType option"

record DragEvent =
  active :: Draggable
  over :: "Draggable option"

text \<open>The two pieces of component state, \<^verbatim>\<open>activeCard\<close> and \<^verbatim>\<open>dragPosition\<close>.\<close>

record ActiveCard =
  ac_id :: int
  ac_title :: string
  ac_commentCount :: nat

record DragPosition =
  dp_activeId :: int
  dp_fromColumnId :: int
  dp_toColumnId :: int
  dp_toIndex :: int

record DndState =
  activeCard :: "ActiveCard option"
  dragPosition :: "DragPosition option"

text \<open>
  Modelled from the spec: \<^verbatim>\<open>arrayMove\<close> is imported from the library
  \<^verbatim>\<open>@dnd-kit/sortable\<close> and is not in src/. Section 4.3 of the specification
  describes it as the standard array move: remove the element at the source index,
  then insert it at the target index. The positions follow \<^verbatim>\<open>splice\<close>, as in the
  library, where the target of a negative \<open>to\<close> is taken from the length before the
  removal. When no element is at the source index there is nothing to move and the
  array is returned as it is; the handlers never call it so.
\<close>

definition arrayMove :: "'a list \<Rightarrow> int \<Rightarrow> int \<Rightarrow> 'a list" where
  "arrayMove array from to =
     (let k = spliceStart from (length array)
      in if k < length array
         then spliceInsert (if to < 0 then int (length array) + to else to)
                (array ! k) (take k array @ drop (Suc k) array)
         else array)"

text \<open>
  A handler reads the columns of the store and the component state, may call store
  actions, and sets component state: the result is the list of store calls it makes,
  in order, and the next component state.
\<close>

definition handleDragOver ::
  "ColumnType list \<Rightarrow> DndState \<Rightarrow> DragEvent \<Rightarrow> StoreCall list \<times> DndState" where
  "handleDragOver cols st event =
     (case over event of
        None \<Rightarrow> ([], st\<lparr>dragPosition := None\<rparr>)
      | Some ov \<Rightarrow>
          if drag_type (active event) = Some ColumnDrag then ([], st)
          else
            (let activeId = drag_id (active event);
                 overId = drag_id ov;
                 activeColumn =
                   find (\<lambda>col. list_ex (\<lambda>item. card_id item = activeId) (items col)) cols;
                 overColumn =
                   find (\<lambda>col. list_ex (\<lambda>item. card_id item = overId) (items col)
                               \<or> col_id col = overId) cols
             in case activeColumn of
                  None \<Rightarrow> ([], st\<lparr>dragPosition := None\<rparr>)
                | Some ac \<Rightarrow>
                    (case overColumn of
                       None \<Rightarrow> ([], st\<lparr>dragPosition := None\<rparr>)
                     | Some oc \<Rightarrow>
                         (let overIndex =
                                findIndex (\<lambda>item. card_id item = overId) (items oc);
                              toIndex =
                                (if col_id ac = col_id oc
                                 then (if overIndex \<noteq> -1 then overIndex
                                       else int (length (items oc)))
                                 else (if overIndex \<noteq> -1 then overIndex
                                       else int (length (items oc))))
                          in ([], st\<lparr>dragPosition :=
                                    Some \<lparr>dp_activeId = activeId,
                                          dp_fromColumnId = col_id ac,
                                          dp_toColumnId = col_id oc,
                                          dp_toIndex = toIndex\<rparr>\<rparr>)))))"

definition handleDragEnd ::
  "ColumnType list \<Rightarrow> DndState \<Rightarrow> DragEvent \<Rightarrow> StoreCall list \<times> DndState" where
  "handleDragEnd cols st event =
     (let cleared = st\<lparr>activeCard := None, dragPosition := None\<rparr>
      in case over event of
           None \<Rightarrow> ([], cleared)
         | Some ov \<Rightarrow>
             if drag_type (active event) = Some ColumnDrag \<and> drag_type ov = Some ColumnDrag
             then
               (let activeIndex = findIndex (\<lambda>col. col_id col = drag_id (active event)) cols;
                    overIndex = findIndex (\<lambda>col. col_id col = drag_id ov) cols
                in ((if activeIndex \<noteq> overIndex
                     then [ReorderColumns (arrayMove (map col_id cols) activeIndex overIndex)]
                     else []),
                    cleared))
             else
               ((case dragPosition st of
                   None \<Rightarrow> []
                 | Some dp \<Rightarrow>
                     if dp_fromColumnId dp = dp_toColumnId dp
                     then
                       (case find (\<lambda>col. col_id col = dp_fromColumnId dp) cols of
                          None \<Rightarrow> []
                        | Some column \<Rightarrow>
                            (let oldIndex =
                                   findIndex (\<lambda>item. card_id item = dp_activeId dp) (items column)
                             in if oldIndex \<noteq> -1 \<and> oldIndex \<noteq> dp_toIndex dp
                                then [ReorderCardsInColumn (dp_fromColumnId dp)
                                        (map card_id
                                           (arrayMove (items column) oldIndex (dp_toIndex dp)))]
                                else []))
                     else [MoveCard (dp_activeId dp) (dp_fromColumnId dp)
                             (dp_toColumnId dp) (dp_toIndex dp)]),
                cleared))"

section \<open>Migration of a persisted snapshot (the persist options of useBoardStore.ts)\<close>

text \<open>
  \<^verbatim>\<open>migrate\<close> takes the persisted state as \<^verbatim>\<open>any\<close>: whatever \<^verbatim>\<open>JSON.parse\<close> gave
  for the stored snapshot. It is modelled on JavaScript values as such: the JSON
  values, and \<^verbatim>\<open>undefined\<close> for a property that is not there. An object is the list
  of its own properties in their order, with no key twice. Numbers are observed by
  \<^verbatim>\<open>migrate\<close> only for being zero or not, and are integers here.
\<close>

datatype jsval =
    JUndefined
  | JNull
  | JBool bool
  | JNum int
  | JStr string
  | JArr "jsval list"
  | JObj "(string \<times> jsval) list"

text \<open>Reading a property of \<^verbatim>\<open>undefined\<close> or \<^verbatim>\<open>null\<close>, and calling what is not a
  function, throw a \<^verbatim>\<open>TypeError\<close>.\<close>

datatype jsError = TypeError

text \<open>
  \<^verbatim>\<open>v.k\<close> for the property names that \<^verbatim>\<open>migrate\<close> reads (\<^verbatim>\<open>columns\<close>, \<^verbatim>\<open>items\<close>,
  \<^verbatim>\<open>comments\<close>, \<^verbatim>\<open>boardTitle\<close>), none of which a parsed array, string, number or
  boolean has.
\<close>

definition getProp :: "string \<Rightarrow> jsval \<Rightarrow> jsError + jsval" where
  "getProp k v =
     (case v of
        JUndefined \<Rightarrow> Inl TypeError
      | JNull \<Rightarrow> Inl TypeError
      | JObj kvs \<Rightarrow> Inr (case map_of kvs k of None \<Rightarrow> JUndefined | Some x \<Rightarrow> x)
      | _ \<Rightarrow> Inr JUndefined)"

text \<open>\<^verbatim>\<open>Array.isArray\<close> and the truthiness that \<^verbatim>\<open>||\<close> tests.\<close>

definition isArray :: "jsval \<Rightarrow> bool" where
  "isArray v = (case v of JArr _ \<Rightarrow> True | _ \<Rightarrow> False)"

definition truthy :: "jsval \<Rightarrow> bool" where
  "truthy v =
     (case v of
        JUndefined \<Rightarrow> False
      | JNull \<Rightarrow> False
      | JBool b \<Rightarrow> b
      | JNum n \<Rightarrow> n \<noteq> 0
      | JStr s \<Rightarrow> s \<noteq> []
      | JArr _ \<Rightarrow> True
      | JObj _ \<Rightarrow> True)"

text \<open>
  The own enumerable properties that an object spread \<^verbatim>\<open>{...v}\<close> copies: those of an
  object, the indices of an array or of a string, and none of the other values.
\<close>

fun decimal :: "nat \<Rightarrow> string" where
  "decimal n =
     (if n < 10 then [char_of (48 + n)]
      else decimal (n div 10) @ [char_of (48 + n mod 10)])"

definition ownProps :: "jsval \<Rightarrow> (string \<times> jsval) list" where
  "ownProps v =
     (case v of
        JObj kvs \<Rightarrow> kvs
      | JArr xs \<Rightarrow> zip (map decimal [0..<length xs]) xs
      | JStr s \<Rightarrow> zip (map decimal [0..<length s]) (map (\<lambda>c. JStr [c]) s)
      | _ \<Rightarrow> [])"

text \<open>
  A property \<^verbatim>\<open>k: v\<close> after a spread in an object literal: it replaces the value of
  a key that the spread gave, in its place, and is a new last property otherwise.
\<close>

fun setProp :: "string \<Rightarrow> jsval \<Rightarrow> (string \<times> jsval) list \<Rightarrow> (string \<times> jsval) list" where
  "setProp k v [] = [(k, v)]"
| "setProp k v ((k', v') # kvs) =
     (if k' = k then (k, v) # kvs else (k', v') # setProp k v kvs)"

text \<open>\<^verbatim>\<open>v.map(f)\<close>, where \<open>f\<close> may throw: only an array has \<^verbatim>\<open>map\<close>.\<close>

fun mapErr :: "('a \<Rightarrow> 'e + 'b) \<Rightarrow> 'a list \<Rightarrow> 'e + 'b list" where
  "mapErr f [] = Inr []"
| "mapErr f (x # xs) =
     (case f x of
        Inl e \<Rightarrow> Inl e
      | Inr y \<Rightarrow> (case mapErr f xs of Inl e \<Rightarrow> Inl e | Inr ys \<Rightarrow> Inr (y # ys)))"

definition arrayMap :: "(jsval \<Rightarrow> jsError + jsval) \<Rightarrow> jsval \<Rightarrow> jsError + jsval list" where
  "arrayMap f v = (case v of JArr xs \<Rightarrow> mapErr f xs | _ \<Rightarrow> Inl TypeError)"

text \<open>
  The version 0 to 1 step, from the inside out: the function applied to a card,
  \<^verbatim>\<open>{...card, comments: Array.isArray(card.comments) ? card.comments : []}\<close>, the one
  applied to a column, and the step on the state.
\<close>

definition migrateCard :: "jsval \<Rightarrow> jsError + jsval" where
  "migrateCard theCard =
     (case getProp ''comments'' theCard of
        Inl e \<Rightarrow> Inl e
      | Inr cm \<Rightarrow>
          Inr (JObj (setProp ''comments'' (if isArray cm then cm else JArr [])
                       (ownProps theCard))))"

definition migrateColumn :: "jsval \<Rightarrow> jsError + jsval" where
  "migrateColumn column =
     (case getProp ''items'' column of
        Inl e \<Rightarrow> Inl e
      | Inr its \<Rightarrow>
          (case arrayMap migrateCard its of
             Inl e \<Rightarrow> Inl e
           | Inr cards \<Rightarrow> Inr (JObj (setProp ''items'' (JArr cards) (ownProps column)))))"

definition migrateComments :: "jsval \<Rightarrow> jsError + jsval" where
  "migrateComments state =
     (case getProp ''columns'' state of
        Inl e \<Rightarrow> Inl e
      | Inr cs \<Rightarrow>
          (case arrayMap migrateColumn cs of
             Inl e \<Rightarrow> Inl e
           | Inr cols \<Rightarrow> Inr (JObj (setProp ''columns'' (JArr cols) (ownProps state)))))"

text \<open>The version 1 to 2 step:
  \<^verbatim>\<open>{...state, boardTitle: state.boardTitle || 'Demo Board'}\<close>.\<close>

definition migrateBoardTitle :: "jsval \<Rightarrow> jsError + jsval" where
  "migrateBoardTitle state =
     (case getProp ''boardTitle'' state of
        Inl e \<Rightarrow> Inl e
      | Inr t \<Rightarrow>
          Inr (JObj (setProp ''boardTitle'' (if truthy t then t else JStr ''Demo Board'')
                       (ownProps state))))"

definition migrate :: "jsval \<Rightarrow> int \<Rightarrow> jsError + jsval" where
  "migrate persistedState version =
     (case (if version = 0 then migrateComments persistedState else Inr persistedState) of
        Inl e \<Rightarrow> Inl e
      | Inr state \<Rightarrow> (if version \<le> 1 then migrateBoardTitle state else Inr state))"

section \<open>Boards of the scenarios\<close>

text \<open>
  The board of scenarios A, B and D of the specification: the columns Todo (id 1)
  and Done (id 2), with the cards C1 (id 101) and C2 (id 102) in Todo.
\<close>

definition plainCard :: "int \<Rightarrow> string \<Rightarrow> CardType" where
  "plainCard i t = \<lparr>card_id = i, card_title = t, card_description = None, card_comments = []\<rparr>"

definition scenarioBoard :: BoardState where
  "scenarioBoard =
     \<lparr>boardTitle = ''Demo Board'', hasHydrated = True,
      columns = [\<lparr>col_id = 1, col_title = ''Todo'',
                  items = [plainCard 101 ''C1'', plainCard 102 ''C2'']\<rparr>,
                 \<lparr>col_id = 2, col_title = ''Done'', items = []\<rparr>]\<rparr>"

text \<open>
  A board whose destination column is not empty: Todo (id 1) with C1 (101) and C2
  (102), Done (id 2) with C3 (103) and C4 (104).
\<close>

definition fourCardBoard :: BoardState where
  "fourCardBoard =
     \<lparr>boardTitle = ''Demo Board'', hasHydrated = True,
      columns = [\<lparr>col_id = 1, col_title = ''Todo'',
                  items = [plainCard 101 ''C1'', plainCard 102 ''C2'']\<rparr>,
                 \<lparr>col_id = 2, col_title = ''Done'',
                  items = [plainCard 103 ''C3'', plainCard 104 ''C4'']\<rparr>]\<rparr>"

section \<open>Notions of the specification\<close>

text \<open>
  The insertion that section 4.1 of the specification words for \<open>moveCard\<close>:
  at \<open>newIndex\<close> clamped to \<open>[0, length]\<close>. It follows the specification's words,
  not the source, and is compared with what the source does.
\<close>

definition spec_insertClamped :: "int \<Rightarrow> 'a \<Rightarrow> 'a list \<Rightarrow> 'a list" where
  "spec_insertClamped newIndex x xs =
     (let k = nat (max 0 (min newIndex (int (length xs)))) in take k xs @ x # drop k xs)"

text \<open>
  Reading a snapshot for the statements on \<open>migrate\<close>: a property of a value
  (\<^verbatim>\<open>undefined\<close> where reading throws), the elements of an array, and the cards of
  a snapshot, column by column.
\<close>

definition propOf :: "string \<Rightarrow> jsval \<Rightarrow> jsval" where
  "propOf k v = (case getProp k v of Inl _ \<Rightarrow> JUndefined | Inr x \<Rightarrow> x)"

definition elems :: "jsval \<Rightarrow> jsval list" where
  "elems v = (case v of JArr xs \<Rightarrow> xs | _ \<Rightarrow> [])"

definition snapshotCards :: "jsval \<Rightarrow> jsval list" where
  "snapshotCards s =
     concat (map (\<lambda>column. elems (propOf ''items'' column)) (elems (propOf ''columns'' s)))"

text \<open>
  A snapshot of the shape that the store writes: an object whose \<^verbatim>\<open>columns\<close> is an
  array of objects whose \<^verbatim>\<open>items\<close> is an array of values other than \<^verbatim>\<open>null\<close>.
  Nothing is asked of the cards' \<^verbatim>\<open>comments\<close> or of the \<^verbatim>\<open>boardTitle\<close>.
\<close>

definition wellShaped :: "jsval \<Rightarrow> bool" where
  "wellShaped s =
     (case getProp ''columns'' s of
        Inr (JArr cols) \<Rightarrow>
          list_all (\<lambda>column.
            case getProp ''items'' column of
              Inr (JArr cards) \<Rightarrow>
                list_all (\<lambda>c. c \<noteq> JUndefined \<and> c \<noteq> JNull) cards
            | _ \<Rightarrow> False) cols
      | _ \<Rightarrow> False)"

text \<open>
  What the version 0 to 1 step makes of a card and of a column of such a snapshot,
  written as total functions for the proofs.
\<close>

definition normalComments :: "jsval \<Rightarrow> jsval" where
  "normalComments v = (if isArray v then v else JArr [])"

definition fixedCard :: "jsval \<Rightarrow> jsval" where
  "fixedCard c =
     JObj (setProp ''comments'' (normalComments (propOf ''comments'' c)) (ownProps c))"

definition fixedColumn :: "jsval \<Rightarrow> jsval" where
  "fixedColumn column =
     JObj (setProp ''items'' (JArr (map fixedCard (elems (propOf ''items'' column))))
             (ownProps column))"

text \<open>
  A version 0 snapshot with one column and one card whose \<^verbatim>\<open>comments\<close> is the old
  object format \<^verbatim>\<open>{}\<close>, and no \<^verbatim>\<open>boardTitle\<close>.
\<close>

definition oldSnapshot :: jsval where
  "oldSnapshot =
     JObj [(''columns'', JArr
       [JObj [(''id'', JNum 1), (''title'', JStr ''Todo''),
              (''items'', JArr
                 [JObj [(''id'', JNum 101), (''title'', JStr ''C1''),
                        (''comments'', JObj [])]])]])]"

text \<open>The card ids of a board, column by column, and all ids of a board.\<close>

definition allCardIds :: "BoardState \<Rightarrow> int list" where
  "allCardIds state = concat (map (\<lambda>column. map card_id (items column)) (columns state))"

definition allIds :: "BoardState \<Rightarrow> int list" where
  "allIds state = map col_id (columns state) @ allCardIds state"

text \<open>
  The invariants of section 3 on ids: no two columns share an id, and every card id
  occurs once over all the item lists, that is, in one column and once there.
\<close>

definition wfBoard :: "BoardState \<Rightarrow> bool" where
  "wfBoard state \<longleftrightarrow> distinct (map col_id (columns state)) \<and> distinct (allCardIds state)"

text \<open>
  The calls under which the card ids of a board are kept, one condition per action
  of the three that move cards around: \<open>addCard\<close> with a clock reading that is no
  card id of the board, \<open>moveCard\<close> with a destination column that exists, and
  \<open>reorderCardsInColumn\<close> with an id list that names every card of the column
  once. The other actions are not part of such a sequence.
\<close>

fun conservingCall :: "StoreCall \<Rightarrow> BoardState \<Rightarrow> bool" where
  "conservingCall (AddCard columnId title now) state \<longleftrightarrow> now \<notin> set (allCardIds state)"
| "conservingCall (MoveCard cardId fromColumnId toColumnId newIndex) state \<longleftrightarrow>
     toColumnId \<in> col_id ` set (columns state)"
| "conservingCall (ReorderCardsInColumn columnId cardIds) state \<longleftrightarrow>
     (\<forall>column\<in>set (columns state). col_id column = columnId \<longrightarrow>
        (\<forall>c\<in>set (items column). count_list cardIds (card_id c) = 1))"
| "conservingCall (AddColumn title now) state \<longleftrightarrow> False"
| "conservingCall (DeleteColumn columnId) state \<longleftrightarrow> False"
| "conservingCall (ReorderColumns columnIds) state \<longleftrightarrow> False"

fun conservingCalls :: "StoreCall list \<Rightarrow> BoardState \<Rightarrow> bool" where
  "conservingCalls [] state \<longleftrightarrow> True"
| "conservingCalls (c # cs) state \<longleftrightarrow>
     conservingCall c state \<and> conservingCalls cs (dispatch c state)"

section \<open>Helper facts on the array primitives\<close>

lemma mapFindFilter_Nil [simp]: "mapFindFilter key xs [] = []"
  by (simp add: mapFindFilter_def)

lemma mapFindFilter_Cons:
  "mapFindFilter key xs (i # ids) =
     (case find (\<lambda>x. key x = i) xs of
        None \<Rightarrow> mapFindFilter key xs ids
      | Some x \<Rightarrow> x # mapFindFilter key xs ids)"
  by (simp add: mapFindFilter_def split: option.splits)

lemma find_key_Some: "find (\<lambda>x. key x = i) xs = Some x \<Longrightarrow> key x = i \<and> x \<in> set xs"
  by (induction xs) (auto split: if_splits)

lemma find_key_None: "find (\<lambda>x. key x = i) xs = None \<longleftrightarrow> i \<notin> key ` set xs"
  by (induction xs) auto

lemma set_mapFindFilter:
  "set (mapFindFilter key xs ids) = {y. \<exists>i\<in>set ids. find (\<lambda>x. key x = i) xs = Some y}"
  by (induction ids) (auto simp: mapFindFilter_Cons split: option.splits)

lemma mapFindFilter_cong:
  "(\<And>i. i \<in> set ids \<Longrightarrow> find (\<lambda>x. key x = i) xs = find (\<lambda>x. key x = i) ys)
   \<Longrightarrow> mapFindFilter key xs ids = mapFindFilter key ys ids"
  by (induction ids) (auto simp: mapFindFilter_Cons split: option.splits)

lemma find_unique:
  assumes "y \<in> set R" and "P y" and "\<forall>z\<in>set R. P z \<longrightarrow> z = y"
  shows "find P R = Some y"
  using assms
proof (induction R)
  case Nil
  then show ?case by simp
next
  case (Cons a R)
  show ?case
  proof (cases "P a")
    case True
    with Cons.prems(3) have "a = y" by simp
    with True show ?thesis by simp
  next
    case False
    with Cons.prems(1,2) have yR: "y \<in> set R" by auto
    from Cons.prems(3) have "\<forall>z\<in>set R. P z \<longrightarrow> z = y" by simp
    from Cons.IH[OF yR Cons.prems(2) this] have "find P R = Some y" .
    with False show ?thesis by simp
  qed
qed

lemma find_mapFindFilter:
  assumes "i \<in> set ids"
  shows "find (\<lambda>x. key x = i) (mapFindFilter key xs ids) = find (\<lambda>x. key x = i) xs"
proof (cases "find (\<lambda>x. key x = i) xs")
  case None
  then have "i \<notin> key ` set xs" by (simp add: find_key_None)
  moreover have "set (mapFindFilter key xs ids) \<subseteq> set xs"
    by (auto simp: set_mapFindFilter dest: find_key_Some)
  ultimately have "i \<notin> key ` set (mapFindFilter key xs ids)" by blast
  then have "find (\<lambda>x. key x = i) (mapFindFilter key xs ids) = None"
    by (simp add: find_key_None)
  with None show ?thesis by simp
next
  case (Some y)
  let ?R = "mapFindFilter key xs ids"
  have a: "y \<in> set ?R"
    using assms Some by (auto simp: set_mapFindFilter)
  have b: "key y = i" using find_key_Some[OF Some] by simp
  have c: "z = y" if "z \<in> set ?R" "key z = i" for z
  proof -
    from that(1) obtain ia where f: "find (\<lambda>x. key x = ia) xs = Some z"
      by (auto simp: set_mapFindFilter)
    from find_key_Some[OF f] that(2) have "ia = i" by simp
    with f Some show ?thesis by simp
  qed
  have "find (\<lambda>x. key x = i) ?R = Some y"
    using find_unique[of y ?R "\<lambda>x. key x = i"] a b c by blast
  with Some show ?thesis by simp
qed

lemma mapFindFilter_idem:
  "mapFindFilter key (mapFindFilter key xs ids) ids = mapFindFilter key xs ids"
  by (rule mapFindFilter_cong) (rule find_mapFindFilter)

section \<open>moveCard with a stale card reference\<close>

text \<open>
  Claim C3. When the first column whose id is \<open>fromColumnId\<close> holds no card with
  id \<open>cardId\<close> (or when there is no such column at all), \<open>moveCard\<close> returns the
  state it was given: nothing is removed and nothing is inserted.
\<close>

theorem moveCard_stale_noop:
  "(case find (\<lambda>col. col_id col = fromColumnId) (columns state) of
      None \<Rightarrow> True
    | Some fc \<Rightarrow> cardId \<notin> card_id ` set (items fc))
   \<Longrightarrow> moveCard cardId fromColumnId toColumnId newIndex state = state"
  by (auto simp: moveCard_def split: option.splits dest: find_key_Some)

theorem moveCard_stale_noop_witness:
  "(case find (\<lambda>col. col_id col = 1) (columns scenarioBoard) of
      None \<Rightarrow> True
    | Some fc \<Rightarrow> 999 \<notin> card_id ` set (items fc))
   \<and> moveCard 999 1 2 0 scenarioBoard = scenarioBoard"
proof -
  have h: "(case find (\<lambda>col. col_id col = 1) (columns scenarioBoard) of
              None \<Rightarrow> True
            | Some fc \<Rightarrow> 999 \<notin> card_id ` set (items fc))"
    by (simp add: scenarioBoard_def plainCard_def)
  from h moveCard_stale_noop [OF h, of 2 0] show ?thesis by simp
qed

section \<open>Reordering the columns twice\<close>

text \<open>
  Claim C7. For every state and every id list, applying \<open>reorderColumns\<close> with the
  same ids a second time gives the state that the first application gave.
\<close>

theorem reorderColumns_idempotent:
  "reorderColumns ids (reorderColumns ids state) = reorderColumns ids state"
  by (simp add: reorderColumns_def mapFindFilter_idem)

section \<open>Reordering the cards of a column\<close>

lemma find_map_same_key:
  assumes "\<And>c. key (f c) = key c"
  shows "find (\<lambda>c. key c = x) (map f cs) = map_option f (find (\<lambda>c. key c = x) cs)"
  by (induction cs) (simp_all add: assms)

lemma map_key_mapFindFilter:
  "map key (mapFindFilter key xs ids) = filter (\<lambda>i. i \<in> key ` set xs) ids"
proof (induction ids)
  case Nil
  show ?case by simp
next
  case (Cons i ids)
  show ?case
  proof (cases "find (\<lambda>x. key x = i) xs")
    case None
    then have "i \<notin> key ` set xs" by (simp add: find_key_None)
    with None Cons.IH show ?thesis by (simp add: mapFindFilter_Cons)
  next
    case (Some y)
    from find_key_Some[OF Some] have "key y = i" "i \<in> key ` set xs" by auto
    with Some Cons.IH show ?thesis by (simp add: mapFindFilter_Cons)
  qed
qed

lemma mapFindFilter_elem:
  assumes "c \<in> set (mapFindFilter key xs ids)"
  shows "find (\<lambda>x. key x = key c) xs = Some c"
proof -
  from assms obtain i where f: "find (\<lambda>x. key x = i) xs = Some c"
    by (auto simp: set_mapFindFilter)
  from find_key_Some[OF f] have "key c = i" by simp
  with f show ?thesis by simp
qed

text \<open>
  Claim C5. When the board has a column with id \<open>columnId\<close>,
  \<open>reorderCardsInColumn columnId cardIds\<close> replaces the item list of that column:
  the ids of the new list are the ids of \<open>cardIds\<close>, in that order, without those
  that no card of the column carries; each card of the new list is the card that
  the column held under that id; no column is added or removed, every column with
  another id is as it was, and so are the title and the hydration flag. The
  instance below is scenario B: Todo with C1, C2 and the ids C2, C1 gives C2, C1.
\<close>

theorem reorderCardsInColumn_replaces:
  assumes "find (\<lambda>col. col_id col = columnId) (columns state) = Some column"
  shows "\<exists>reordered.
           find (\<lambda>col. col_id col = columnId)
             (columns (reorderCardsInColumn columnId cardIds state))
             = Some (column\<lparr>items := reordered\<rparr>)
         \<and> map card_id reordered = filter (\<lambda>i. i \<in> card_id ` set (items column)) cardIds
         \<and> (\<forall>c\<in>set reordered. find (\<lambda>item. card_id item = card_id c) (items column) = Some c)
         \<and> length (columns (reorderCardsInColumn columnId cardIds state)) = length (columns state)
         \<and> (\<forall>k<length (columns state). col_id (columns state ! k) \<noteq> columnId \<longrightarrow>
               columns (reorderCardsInColumn columnId cardIds state) ! k = columns state ! k)
         \<and> boardTitle (reorderCardsInColumn columnId cardIds state) = boardTitle state
         \<and> hasHydrated (reorderCardsInColumn columnId cardIds state) = hasHydrated state"
proof -
  let ?f = "\<lambda>column. if col_id column = columnId
              then column\<lparr>items := mapFindFilter card_id (items column) cardIds\<rparr>
              else column"
  have cols: "columns (reorderCardsInColumn columnId cardIds state) = map ?f (columns state)"
    by (simp add: reorderCardsInColumn_def)
  have key: "\<And>c. col_id (?f c) = col_id c" by simp
  from find_key_Some[OF assms] have cid: "col_id column = columnId" by simp
  have "find (\<lambda>col. col_id col = columnId) (map ?f (columns state)) = Some (?f column)"
    using find_map_same_key[of col_id ?f columnId "columns state", OF key] assms by simp
  with cid have 1: "find (\<lambda>col. col_id col = columnId)
             (columns (reorderCardsInColumn columnId cardIds state))
             = Some (column\<lparr>items := mapFindFilter card_id (items column) cardIds\<rparr>)"
    by (simp add: cols)
  have 2: "map card_id (mapFindFilter card_id (items column) cardIds)
            = filter (\<lambda>i. i \<in> card_id ` set (items column)) cardIds"
    by (rule map_key_mapFindFilter)
  have 3: "\<forall>c\<in>set (mapFindFilter card_id (items column) cardIds).
             find (\<lambda>item. card_id item = card_id c) (items column) = Some c"
    by (blast intro: mapFindFilter_elem)
  have 4: "length (columns (reorderCardsInColumn columnId cardIds state)) = length (columns state)"
    by (simp add: cols)
  have 5: "\<forall>k<length (columns state). col_id (columns state ! k) \<noteq> columnId \<longrightarrow>
               columns (reorderCardsInColumn columnId cardIds state) ! k = columns state ! k"
    by (simp add: cols)
  have 6: "boardTitle (reorderCardsInColumn columnId cardIds state) = boardTitle state"
      "hasHydrated (reorderCardsInColumn columnId cardIds state) = hasHydrated state"
    by (simp_all add: reorderCardsInColumn_def)
  from 1 2 3 4 5 6 show ?thesis by blast
qed

theorem reorderCardsInColumn_replaces_witness:
  "find (\<lambda>col. col_id col = 1) (columns scenarioBoard)
     = Some \<lparr>col_id = 1, col_title = ''Todo'',
             items = [plainCard 101 ''C1'', plainCard 102 ''C2'']\<rparr>
   \<and> (\<exists>reordered.
         find (\<lambda>col. col_id col = 1) (columns (reorderCardsInColumn 1 [102, 101] scenarioBoard))
           = Some \<lparr>col_id = 1, col_title = ''Todo'', items = reordered\<rparr>
         \<and> map card_id reordered = [102, 101])"
proof -
  have h: "find (\<lambda>col. col_id col = 1) (columns scenarioBoard)
     = Some \<lparr>col_id = 1, col_title = ''Todo'',
             items = [plainCard 101 ''C1'', plainCard 102 ''C2'']\<rparr>"
    by (simp add: scenarioBoard_def)
  from reorderCardsInColumn_replaces [OF h, of "[102, 101]"]
  obtain reordered where
    a: "find (\<lambda>col. col_id col = 1) (columns (reorderCardsInColumn 1 [102, 101] scenarioBoard))
       = Some (\<lparr>col_id = 1, col_title = ''Todo'',
                 items = [plainCard 101 ''C1'', plainCard 102 ''C2'']\<rparr>\<lparr>items := reordered\<rparr>)"
    and b: "map card_id reordered
       = filter (\<lambda>i. i \<in> card_id ` set (items \<lparr>col_id = 1, col_title = ''Todo'',
                 items = [plainCard 101 ''C1'', plainCard 102 ''C2'']\<rparr>)) [102, 101]"
    by (elim exE conjE)
  from b have b': "map card_id reordered = [102, 101]"
    by (simp add: plainCard_def)
  from a have a': "find (\<lambda>col. col_id col = 1)
       (columns (reorderCardsInColumn 1 [102, 101] scenarioBoard))
       = Some \<lparr>col_id = 1, col_title = ''Todo'', items = reordered\<rparr>"
    by simp
  from h a' b' show ?thesis by (intro conjI exI[of _ reordered])
qed

section \<open>Moving a card between columns\<close>

lemma moveCard_found:
  assumes "find (\<lambda>col. col_id col = fromColumnId) (columns state) = Some fc"
      and "find (\<lambda>item. card_id item = cardId) (items fc) = Some c"
  shows "columns (moveCard cardId fromColumnId toColumnId newIndex state) =
           map (\<lambda>column. if col_id column = toColumnId
                           then column\<lparr>items := spliceInsert newIndex c (items column)\<rparr>
                           else column)
             (map (\<lambda>column. if col_id column = fromColumnId
                              then column\<lparr>items :=
                                     filter (\<lambda>item. card_id item \<noteq> cardId) (items column)\<rparr>
                              else column)
                (columns state))"
    and "boardTitle (moveCard cardId fromColumnId toColumnId newIndex state) = boardTitle state"
    and "hasHydrated (moveCard cardId fromColumnId toColumnId newIndex state) = hasHydrated state"
  using assms by (simp_all add: moveCard_def)

lemma spliceStart_cases:
  "spliceStart newIndex len =
     (if newIndex < 0 then nat (max 0 (int len + newIndex)) else min (nat newIndex) len)"
  by (simp add: spliceStart_def max.commute)

lemma spliceStart_le: "spliceStart newIndex len \<le> len"
  by (auto simp: spliceStart_def max_def)

lemma spliceInsert_past_end: "int (length a) \<le> newIndex \<Longrightarrow> spliceInsert newIndex x a = a @ [x]"
  by (simp add: spliceInsert_def spliceStart_def)

text \<open>
  Claim C2, amended. When the first column with id \<open>fromColumnId\<close> holds a card with
  id \<open>cardId\<close> and a column with id \<open>toColumnId\<close> exists, \<open>moveCard\<close> takes the
  card out of the source list and puts it into the destination list (the source list
  after the removal when both ids are the same) at the position that \<^verbatim>\<open>splice\<close>
  gives: \<open>min newIndex length\<close> for \<open>newIndex \<ge> 0\<close>, and \<open>max 0 (length + newIndex)\<close>,
  counted from the end, for a negative \<open>newIndex\<close>. The position is never past the
  end, an index at or beyond the length appends, the model has no failing branch as
  the source has none, and columns with other ids are untouched. The instance below
  is scenario A.
\<close>

theorem moveCard_moves:
  assumes fc: "find (\<lambda>col. col_id col = fromColumnId) (columns state) = Some fc"
      and c: "find (\<lambda>item. card_id item = cardId) (items fc) = Some c"
      and tc: "find (\<lambda>col. col_id col = toColumnId) (columns state) = Some tc"
  shows "let removed = filter (\<lambda>item. card_id item \<noteq> cardId) (items fc);
             base = (if toColumnId = fromColumnId then removed else items tc);
             k = (if newIndex < 0 then nat (max 0 (int (length base) + newIndex))
                  else min (nat newIndex) (length base));
             state' = moveCard cardId fromColumnId toColumnId newIndex state
         in find (\<lambda>col. col_id col = toColumnId) (columns state')
              = Some (tc\<lparr>items := take k base @ c # drop k base\<rparr>)
          \<and> (toColumnId \<noteq> fromColumnId \<longrightarrow>
               find (\<lambda>col. col_id col = fromColumnId) (columns state')
                 = Some (fc\<lparr>items := removed\<rparr>))
          \<and> cardId \<notin> card_id ` set removed
          \<and> card_id c = cardId
          \<and> k \<le> length base
          \<and> (int (length base) \<le> newIndex \<longrightarrow> take k base @ c # drop k base = base @ [c])
          \<and> length (columns state') = length (columns state)
          \<and> (\<forall>j<length (columns state).
                col_id (columns state ! j) \<noteq> fromColumnId \<and>
                col_id (columns state ! j) \<noteq> toColumnId \<longrightarrow>
                columns state' ! j = columns state ! j)"
proof -
  let ?rem = "\<lambda>column. if col_id column = fromColumnId
                then column\<lparr>items := filter (\<lambda>item. card_id item \<noteq> cardId) (items column)\<rparr>
                else column"
  let ?ins = "\<lambda>column. if col_id column = toColumnId
                then column\<lparr>items := spliceInsert newIndex c (items column)\<rparr>
                else column"
  let ?state' = "moveCard cardId fromColumnId toColumnId newIndex state"
  define removed where "removed = filter (\<lambda>item. card_id item \<noteq> cardId) (items fc)"
  define base where "base = (if toColumnId = fromColumnId then removed else items tc)"
  define k where "k = (if newIndex < 0 then nat (max 0 (int (length base) + newIndex))
                       else min (nat newIndex) (length base))"
  have cols: "columns ?state' = map ?ins (map ?rem (columns state))"
    by (rule moveCard_found(1)[OF fc c])
  have krem: "\<And>x. col_id (?rem x) = col_id x" by simp
  have kins: "\<And>x. col_id (?ins x) = col_id x" by simp
  have find': "find (\<lambda>col. col_id col = x) (columns ?state')
                 = map_option ?ins (map_option ?rem (find (\<lambda>col. col_id col = x) (columns state)))"
    for x
    unfolding cols
    using find_map_same_key[of col_id ?ins x "map ?rem (columns state)", OF kins]
          find_map_same_key[of col_id ?rem x "columns state", OF krem]
    by simp
  from find_key_Some[OF fc] have fcid: "col_id fc = fromColumnId" by simp
  from find_key_Some[OF tc] have tcid: "col_id tc = toColumnId" by simp
  from find_key_Some[OF c] have cid: "card_id c = cardId" by simp
  have k: "k = spliceStart newIndex (length base)"
    unfolding k_def by (simp only: spliceStart_cases)
  have ins: "spliceInsert newIndex c base = take k base @ c # drop k base"
    unfolding k by (simp add: spliceInsert_def Let_def)
  have tofind: "find (\<lambda>col. col_id col = toColumnId) (columns ?state')
                  = Some (?ins (?rem tc))"
    by (simp add: find'[of toColumnId] tc)
  have "?ins (?rem tc) = tc\<lparr>items := spliceInsert newIndex c base\<rparr>"
  proof (cases "toColumnId = fromColumnId")
    case True
    with fc tc have "tc = fc" by simp
    with True fcid show ?thesis by (simp add: base_def removed_def)
  next
    case False
    with tcid show ?thesis by (simp add: base_def)
  qed
  with tofind ins have 1: "find (\<lambda>col. col_id col = toColumnId) (columns ?state')
             = Some (tc\<lparr>items := take k base @ c # drop k base\<rparr>)"
    by simp
  have fromfind: "find (\<lambda>col. col_id col = fromColumnId) (columns ?state')
                  = Some (?ins (?rem fc))"
    by (simp add: find'[of fromColumnId] fc)
  have "toColumnId \<noteq> fromColumnId \<Longrightarrow> ?ins (?rem fc) = fc\<lparr>items := removed\<rparr>"
    using fcid by (simp add: removed_def)
  with fromfind have 2: "toColumnId \<noteq> fromColumnId \<longrightarrow>
               find (\<lambda>col. col_id col = fromColumnId) (columns ?state')
                 = Some (fc\<lparr>items := removed\<rparr>)"
    by simp
  have 3: "cardId \<notin> card_id ` set removed" by (auto simp: removed_def)
  have 5: "k \<le> length base"
    unfolding k by (rule spliceStart_le)
  have 6: "int (length base) \<le> newIndex \<longrightarrow> take k base @ c # drop k base = base @ [c]"
    using spliceInsert_past_end[of base newIndex c] ins by simp
  have 7: "length (columns ?state') = length (columns state)"
    by (simp add: cols)
  have 8: "\<forall>j<length (columns state).
                col_id (columns state ! j) \<noteq> fromColumnId \<and>
                col_id (columns state ! j) \<noteq> toColumnId \<longrightarrow>
                columns ?state' ! j = columns state ! j"
    by (simp add: cols)
  from 1 2 3 cid 5 6 7 8 show ?thesis
    unfolding Let_def removed_def[symmetric] base_def[symmetric] k_def[symmetric]
    by (intro conjI)
qed

theorem moveCard_moves_witness:
  "find (\<lambda>col. col_id col = 1) (columns scenarioBoard)
     = Some \<lparr>col_id = 1, col_title = ''Todo'',
             items = [plainCard 101 ''C1'', plainCard 102 ''C2'']\<rparr>
   \<and> find (\<lambda>item. card_id item = 101) [plainCard 101 ''C1'', plainCard 102 ''C2'']
     = Some (plainCard 101 ''C1'')
   \<and> find (\<lambda>col. col_id col = 2) (columns scenarioBoard)
     = Some \<lparr>col_id = 2, col_title = ''Done'', items = []\<rparr>
   \<and> find (\<lambda>col. col_id col = 2) (columns (moveCard 101 1 2 0 scenarioBoard))
     = Some \<lparr>col_id = 2, col_title = ''Done'', items = [plainCard 101 ''C1'']\<rparr>
   \<and> find (\<lambda>col. col_id col = 1) (columns (moveCard 101 1 2 0 scenarioBoard))
     = Some \<lparr>col_id = 1, col_title = ''Todo'', items = [plainCard 102 ''C2'']\<rparr>"
proof -
  let ?todo = "\<lparr>col_id = 1, col_title = ''Todo'',
                items = [plainCard 101 ''C1'', plainCard 102 ''C2'']\<rparr>"
  let ?done = "\<lparr>col_id = 2, col_title = ''Done'', items = []\<rparr>"
  have h1: "find (\<lambda>col. col_id col = 1) (columns scenarioBoard) = Some ?todo"
    by (simp add: scenarioBoard_def)
  have h2: "find (\<lambda>item. card_id item = 101) (items ?todo) = Some (plainCard 101 ''C1'')"
    by (simp add: plainCard_def)
  have h3: "find (\<lambda>col. col_id col = 2) (columns scenarioBoard) = Some ?done"
    by (simp add: scenarioBoard_def)
  have r: "find (\<lambda>col. col_id col = 2) (columns (moveCard 101 1 2 0 scenarioBoard))
             = Some \<lparr>col_id = 2, col_title = ''Done'', items = [plainCard 101 ''C1'']\<rparr>
         \<and> find (\<lambda>col. col_id col = 1) (columns (moveCard 101 1 2 0 scenarioBoard))
             = Some \<lparr>col_id = 1, col_title = ''Todo'', items = [plainCard 102 ''C2'']\<rparr>"
    using moveCard_moves [OF h1 h2 h3, of 0]
    by (simp add: Let_def plainCard_def)
  from h1 h2 h3 r show ?thesis by simp
qed

text \<open>
  The claim as the specification words it, with \<open>newIndex\<close> clamped to \<open>[0, length]\<close>,
  fails for a negative index: moving C1 into a Done column that holds C3, C4 at
  \<open>newIndex = -1\<close> puts it between C3 and C4, where clamping would put it first.
\<close>

theorem moveCard_negative_index_counterexample:
  "map card_id (items (columns (moveCard 101 1 2 (-1) fourCardBoard) ! 1)) = [103, 101, 104]
   \<and> map card_id (spec_insertClamped (-1) (plainCard 101 ''C1'')
                    (items (columns fourCardBoard ! 1))) = [101, 103, 104]
   \<and> items (columns (moveCard 101 1 2 (-1) fourCardBoard) ! 1)
       \<noteq> spec_insertClamped (-1) (plainCard 101 ''C1'') (items (columns fourCardBoard ! 1))"
  by (simp add: moveCard_def fourCardBoard_def spec_insertClamped_def spliceInsert_def
        spliceStart_def plainCard_def)

lemma set_allCardIds:
  "set (allCardIds state) = (\<Union>column\<in>set (columns state). card_id ` set (items column))"
  by (simp add: allCardIds_def)



section \<open>The drag handlers and the store\<close>

lemma findIndex_ge: "- 1 \<le> findIndex P xs"
  by (induction xs) (auto simp: Let_def)

lemma findIndex_nat:
  "findIndex P xs = int a \<Longrightarrow> a < length xs \<and> P (xs ! a)"
proof (induction xs arbitrary: a)
  case Nil
  then show ?case by simp
next
  case (Cons x xs)
  show ?case
  proof (cases "P x")
    case True
    with Cons.prems show ?thesis by simp
  next
    case False
    with Cons.prems have r: "findIndex P xs \<noteq> - 1" and e: "findIndex P xs + 1 = int a"
      by (auto simp: Let_def split: if_splits)
    from e findIndex_ge[of P xs] r obtain a' where a': "a = Suc a'"
      by (cases a) auto
    with e have "findIndex P xs = int a'" by simp
    from Cons.IH[OF this] a' show ?thesis by simp
  qed
qed

lemma arrayMove_in_range:
  assumes "a < length xs" and "b < length xs"
  shows "arrayMove xs (int a) (int b) =
           (let rest = take a xs @ drop (Suc a) xs in take b rest @ xs ! a # drop b rest)"
proof -
  have "spliceStart (int a) (length xs) = a"
    using assms by (simp add: spliceStart_def)
  moreover have "spliceStart (int b) (length (take a xs @ drop (Suc a) xs)) = b"
    using assms by (auto simp: spliceStart_def)
  ultimately show ?thesis
    using assms by (simp add: arrayMove_def spliceInsert_def Let_def)
qed

text \<open>
  Claim C6. When a drag ends with a column as the dragged element and a column under
  it, and both ids are found among the columns at the indices \<open>a\<close> and \<open>b\<close> (taken
  from the order before the move), the handler makes no store call if \<open>a = b\<close>, and
  otherwise the single call \<open>reorderColumns\<close> with the column ids in which the dragged
  id is removed from index \<open>a\<close> and inserted at index \<open>b\<close> of what is left. Both
  pieces of component state are cleared. The instance below is scenario C on the
  seed columns: Done (index 2) dropped on Todo (index 0).
\<close>

theorem handleDragEnd_column_move:
  assumes ov: "over event = Some ov"
      and ta: "drag_type (active event) = Some ColumnDrag"
      and tov: "drag_type ov = Some ColumnDrag"
      and ai: "findIndex (\<lambda>col. col_id col = drag_id (active event)) cols = int a"
      and oi: "findIndex (\<lambda>col. col_id col = drag_id ov) cols = int b"
  shows "fst (handleDragEnd cols st event) =
           (if a = b then []
            else [ReorderColumns
                    (let ids = map col_id cols;
                         rest = take a ids @ drop (Suc a) ids
                     in take b rest @ drag_id (active event) # drop b rest)])
         \<and> snd (handleDragEnd cols st event) = st\<lparr>activeCard := None, dragPosition := None\<rparr>
         \<and> a < length cols \<and> col_id (cols ! a) = drag_id (active event)
         \<and> b < length cols \<and> col_id (cols ! b) = drag_id ov"
proof -
  from findIndex_nat[OF ai] have a: "a < length cols" "col_id (cols ! a) = drag_id (active event)"
    by simp_all
  from findIndex_nat[OF oi] have b: "b < length cols" "col_id (cols ! b) = drag_id ov"
    by simp_all
  have am: "arrayMove (map col_id cols) (int a) (int b) =
          (let rest = take a (map col_id cols) @ drop (Suc a) (map col_id cols)
           in take b rest @ drag_id (active event) # drop b rest)"
    using arrayMove_in_range[of a "map col_id cols" b] a b by simp
  have 1: "fst (handleDragEnd cols st event) =
           (if int a \<noteq> int b then [ReorderColumns (arrayMove (map col_id cols) (int a) (int b))]
            else [])"
    by (simp add: handleDragEnd_def ov ta tov ai oi Let_def)
  have 2: "snd (handleDragEnd cols st event) = st\<lparr>activeCard := None, dragPosition := None\<rparr>"
    by (simp add: handleDragEnd_def ov ta tov Let_def)
  from 1 am have "fst (handleDragEnd cols st event) =
           (if a = b then []
            else [ReorderColumns
                    (let ids = map col_id cols;
                         rest = take a ids @ drop (Suc a) ids
                     in take b rest @ drag_id (active event) # drop b rest)])"
    by (simp add: Let_def)
  with 2 a b show ?thesis by (intro conjI)
qed

theorem handleDragEnd_column_move_witness:
  "over \<lparr>active = \<lparr>drag_id = 3, drag_type = Some ColumnDrag\<rparr>,
         over = Some \<lparr>drag_id = 3453453434, drag_type = Some ColumnDrag\<rparr>\<rparr>
     = Some \<lparr>drag_id = 3453453434, drag_type = Some ColumnDrag\<rparr>
   \<and> findIndex (\<lambda>col. col_id col = 3) initialColumns = int 2
   \<and> findIndex (\<lambda>col. col_id col = 3453453434) initialColumns = int 0
   \<and> fst (handleDragEnd initialColumns \<lparr>activeCard = None, dragPosition = None\<rparr>
            \<lparr>active = \<lparr>drag_id = 3, drag_type = Some ColumnDrag\<rparr>,
             over = Some \<lparr>drag_id = 3453453434, drag_type = Some ColumnDrag\<rparr>\<rparr>)
     = [ReorderColumns [3, 3453453434, 2]]"
proof -
  let ?ov = "\<lparr>drag_id = 3453453434, drag_type = Some ColumnDrag\<rparr>"
  let ?ev = "\<lparr>active = \<lparr>drag_id = 3, drag_type = Some ColumnDrag\<rparr>, over = Some ?ov\<rparr>"
  have h1: "over ?ev = Some ?ov" by simp
  have h2: "drag_type (active ?ev) = Some ColumnDrag" by simp
  have h3: "drag_type ?ov = Some ColumnDrag" by simp
  have h4: "findIndex (\<lambda>col. col_id col = drag_id (active ?ev)) initialColumns = int 2"
    by (simp add: initialColumns_def)
  have h5: "findIndex (\<lambda>col. col_id col = drag_id ?ov) initialColumns = int 0"
    by (simp add: initialColumns_def)
  have "fst (handleDragEnd initialColumns \<lparr>activeCard = None, dragPosition = None\<rparr> ?ev)
          = [ReorderColumns [3, 3453453434, 2]]"
    using handleDragEnd_column_move [OF h1 h2 h3 h4 h5, of "\<lparr>activeCard = None, dragPosition = None\<rparr>"]
    by (simp add: initialColumns_def Let_def)
  with h1 h4 h5 show ?thesis by simp
qed

text \<open>
  Claim C10. For every store, component state and drag-over event, the drag-over
  handler makes no store call: the store after the handler, the in-memory state
  and the snapshot in storage alike, is the store before it. The handler leaves
  \<open>activeCard\<close> alone too, so that of the component state only the drag position
  may change.
\<close>

theorem handleDragOver_store_unchanged:
  "fst (handleDragOver (columns (current store)) st event) = []
   \<and> persistedCalls (fst (handleDragOver (columns (current store)) st event)) store = store
   \<and> activeCard (snd (handleDragOver (columns (current store)) st event)) = activeCard st"
proof -
  have 1: "fst (handleDragOver cols st event) = []" for cols
    by (simp add: handleDragOver_def Let_def split: option.splits)
  have 2: "activeCard (snd (handleDragOver cols st event)) = activeCard st" for cols
    by (simp add: handleDragOver_def Let_def split: option.splits)
  from 1 2 show ?thesis by simp
qed

section \<open>Conservation of the card ids\<close>

lemma mset_allCardIds:
  "mset (allCardIds state) = (\<Sum>column\<leftarrow>columns state. mset (map card_id (items column)))"
  by (simp add: allCardIds_def mset_concat comp_def)

lemma map_other_id:
  "x \<notin> col_id ` set cols \<Longrightarrow> map (\<lambda>c. if col_id c = x then f c else c) cols = cols"
  by (induction cols) auto

lemma sum_update_one:
  fixes g :: "ColumnType \<Rightarrow> int multiset"
  assumes "distinct (map col_id cols)"
      and "find (\<lambda>c. col_id c = x) cols = Some col"
  shows "(\<Sum>c\<leftarrow>map (\<lambda>c. if col_id c = x then f c else c) cols. g c) + g col
           = (\<Sum>c\<leftarrow>cols. g c) + g (f col)"
  using assms
proof (induction cols)
  case Nil
  then show ?case by simp
next
  case (Cons a cols)
  show ?case
  proof (cases "col_id a = x")
    case True
    with Cons.prems(2) have "a = col" by simp
    from True Cons.prems(1) have "x \<notin> col_id ` set cols" by auto
    then have "map (\<lambda>c. if col_id c = x then f c else c) cols = cols"
      by (rule map_other_id)
    with True \<open>a = col\<close> show ?thesis by (simp add: ac_simps)
  next
    case False
    with Cons.prems have d: "distinct (map col_id cols)"
      and f: "find (\<lambda>c. col_id c = x) cols = Some col" by simp_all
    from Cons.IH[OF d f] False show ?thesis by (simp add: ac_simps)
  qed
qed

lemma distinct_concat_part:
  "distinct (concat xss) \<Longrightarrow> xs \<in> set xss \<Longrightarrow> distinct xs"
  by (induction xss) auto

lemma column_ids_distinct:
  assumes "distinct (allCardIds state)" and "column \<in> set (columns state)"
  shows "distinct (map card_id (items column))"
  using assms distinct_concat_part[of "map (\<lambda>column. map card_id (items column)) (columns state)"
      "map card_id (items column)"]
  by (simp add: allCardIds_def)

lemma mset_remove_id:
  assumes "distinct (map card_id its)" and "find (\<lambda>item. card_id item = i) its = Some c"
  shows "mset (map card_id (filter (\<lambda>item. card_id item \<noteq> i) its)) + {#i#}
           = mset (map card_id its)"
  using assms
proof (induction its)
  case Nil
  then show ?case by simp
next
  case (Cons a its)
  show ?case
  proof (cases "card_id a = i")
    case True
    with Cons.prems(1) have "i \<notin> card_id ` set its" by auto
    then have "filter (\<lambda>item. card_id item \<noteq> i) its = its"
      by (induction its) auto
    with True show ?thesis by simp
  next
    case False
    with Cons.prems have d: "distinct (map card_id its)"
      and f: "find (\<lambda>item. card_id item = i) its = Some c" by simp_all
    from Cons.IH[OF d f] False show ?thesis by simp
  qed
qed

lemma mset_spliceInsert:
  "mset (map card_id (spliceInsert newIndex c its)) = mset (map card_id its) + {#card_id c#}"
proof -
  have "mset (map card_id (take k its @ c # drop k its)) = mset (map card_id its) + {#card_id c#}"
    for k
  proof -
    have "mset (map card_id (xs @ c # ys)) = mset (map card_id (xs @ ys)) + {#card_id c#}"
      for xs ys
      by simp
    from this[of "take k its" "drop k its"] show ?thesis
      by (simp only: append_take_drop_id)
  qed
  then show ?thesis by (simp add: spliceInsert_def Let_def)
qed

lemma mset_reordered:
  assumes d: "distinct (map card_id its)"
      and once: "\<forall>c\<in>set its. count_list cardIds (card_id c) = 1"
  shows "mset (map card_id (mapFindFilter card_id its cardIds)) = mset (map card_id its)"
proof (rule multiset_eqI)
  fix a
  show "count (mset (map card_id (mapFindFilter card_id its cardIds))) a
          = count (mset (map card_id its)) a"
  proof (cases "a \<in> card_id ` set its")
    case True
    with once have "count_list cardIds a = 1" by auto
    moreover from d True have "count (mset (map card_id its)) a = 1"
      by (simp add: distinct_count_atmost_1)
    ultimately show ?thesis
      using True by (simp add: map_key_mapFindFilter count_mset)
  next
    case False
    then have "count (mset (map card_id its)) a = 0"
      using not_in_iff[of a "mset (map card_id its)"] by simp
    with False show ?thesis
      by (simp add: map_key_mapFindFilter)
  qed
qed

lemma wfBoard_from_mset:
  assumes "map col_id (columns state') = map col_id (columns state)"
      and "mset (allCardIds state') = mset (allCardIds state) + M"
      and "distinct (xs @ allCardIds state)" and "mset xs = M"
      and "distinct (map col_id (columns state))"
  shows "wfBoard state' \<and> set (allCardIds state) \<subseteq> set (allCardIds state')"
proof -
  from assms(2,4) have m: "mset (allCardIds state') = mset (xs @ allCardIds state)"
    by (simp add: ac_simps)
  from mset_eq_imp_distinct_iff[OF m] assms(3) have "distinct (allCardIds state')" by simp
  moreover from mset_eq_setD[OF m] have "set (allCardIds state) \<subseteq> set (allCardIds state')"
    by auto
  ultimately show ?thesis using assms(1,5) by (simp add: wfBoard_def)
qed

lemma addCard_conserves:
  assumes wf: "wfBoard state" and fresh: "now \<notin> set (allCardIds state)"
  shows "wfBoard (addCard columnId title now state)
         \<and> set (allCardIds state) \<subseteq> set (allCardIds (addCard columnId title now state))"
proof -
  let ?new = "\<lparr>card_id = now, card_title = title, card_description = None, card_comments = []\<rparr>"
  let ?f = "\<lambda>column. column\<lparr>items := items column @ [?new]\<rparr>"
  let ?g = "\<lambda>column::ColumnType. mset (map card_id (items column))"
  let ?state' = "addCard columnId title now state"
  from wf have dc: "distinct (map col_id (columns state))"
    and di: "distinct (allCardIds state)" by (simp_all add: wfBoard_def)
  have cols: "columns ?state' = map (\<lambda>c. if col_id c = columnId then ?f c else c) (columns state)"
    by (simp add: addCard_def)
  have ids: "map col_id (columns ?state') = map col_id (columns state)"
    by (simp add: cols comp_def if_distrib cong: if_cong)
  show ?thesis
  proof (cases "find (\<lambda>c. col_id c = columnId) (columns state)")
    case None
    then have "columnId \<notin> col_id ` set (columns state)" by (simp add: find_key_None)
    from map_other_id[OF this, of ?f] cols have "columns ?state' = columns state" by simp
    then have "allCardIds ?state' = allCardIds state" by (simp add: allCardIds_def)
    with wf ids show ?thesis by (simp add: wfBoard_def)
  next
    case (Some col)
    from sum_update_one[OF dc Some, where f = ?f and g = ?g]
    have "mset (allCardIds ?state') + ?g col = mset (allCardIds state) + ?g (?f col)"
      by (simp add: mset_allCardIds cols)
    then have m: "mset (allCardIds ?state') = mset (allCardIds state) + {#now#}" by simp
    from di fresh have d: "distinct ([now] @ allCardIds state)" by simp
    from wfBoard_from_mset[OF ids m d _ dc] show ?thesis by simp
  qed
qed

lemma moveCard_conserves:
  assumes wf: "wfBoard state" and dest: "toColumnId \<in> col_id ` set (columns state)"
  shows "wfBoard (moveCard cardId fromColumnId toColumnId newIndex state)
         \<and> set (allCardIds state)
             \<subseteq> set (allCardIds (moveCard cardId fromColumnId toColumnId newIndex state))"
proof -
  let ?state' = "moveCard cardId fromColumnId toColumnId newIndex state"
  let ?g = "\<lambda>column::ColumnType. mset (map card_id (items column))"
  from wf have dc: "distinct (map col_id (columns state))"
    and di: "distinct (allCardIds state)" by (simp_all add: wfBoard_def)
  show ?thesis
  proof (cases "find (\<lambda>col. col_id col = fromColumnId) (columns state)")
    case None
    then have "?state' = state" by (simp add: moveCard_def)
    with wf show ?thesis by simp
  next
    case (Some fc)
    note fc = this
    show ?thesis
    proof (cases "find (\<lambda>item. card_id item = cardId) (items fc)")
      case None
      with fc have "?state' = state" by (simp add: moveCard_def)
      with wf show ?thesis by simp
    next
      case (Some c)
      let ?remf = "\<lambda>column. column\<lparr>items := filter (\<lambda>item. card_id item \<noteq> cardId) (items column)\<rparr>"
      let ?insf = "\<lambda>column. column\<lparr>items := spliceInsert newIndex c (items column)\<rparr>"
      let ?rem = "\<lambda>column. if col_id column = fromColumnId then ?remf column else column"
      let ?ins = "\<lambda>column. if col_id column = toColumnId then ?insf column else column"
      let ?cols1 = "map ?rem (columns state)"
      have cols: "columns ?state' = map ?ins ?cols1"
        by (rule moveCard_found(1)[OF fc Some])
      have ids1: "map col_id ?cols1 = map col_id (columns state)"
        by (simp add: comp_def if_distrib cong: if_cong)
      have ids: "map col_id (columns ?state') = map col_id (columns state)"
        unfolding cols using ids1 by (simp add: comp_def if_distrib cong: if_cong)
      from find_key_Some[OF Some] have cid: "card_id c = cardId" by simp
      from find_key_Some[OF fc] have "fc \<in> set (columns state)" by simp
      from column_ids_distinct[OF di this] have dfc: "distinct (map card_id (items fc))" .
      from sum_update_one[OF dc fc, where f = ?remf and g = ?g]
      have "(\<Sum>col\<leftarrow>?cols1. ?g col) + ?g fc = mset (allCardIds state) + ?g (?remf fc)"
        by (simp add: mset_allCardIds)
      with mset_remove_id[OF dfc Some]
      have "(\<Sum>col\<leftarrow>?cols1. ?g col) + (?g (?remf fc) + {#cardId#})
              = mset (allCardIds state) + ?g (?remf fc)"
        by simp
      then have m1: "(\<Sum>col\<leftarrow>?cols1. ?g col) + {#cardId#} = mset (allCardIds state)"
        by (simp add: ac_simps)
      from dest obtain tc where tc: "find (\<lambda>col. col_id col = toColumnId) (columns state) = Some tc"
        using find_key_None[of col_id toColumnId "columns state"] by (cases "find (\<lambda>col. col_id col = toColumnId) (columns state)") auto
      have krem: "\<And>x. col_id (?rem x) = col_id x" by simp
      from find_map_same_key[of col_id ?rem toColumnId "columns state", OF krem] tc
      have tc1: "find (\<lambda>col. col_id col = toColumnId) ?cols1 = Some (?rem tc)" by simp
      have dc1: "distinct (map col_id ?cols1)" unfolding ids1 by (rule dc)
      from sum_update_one[OF dc1 tc1, where f = ?insf and g = ?g]
      have "mset (allCardIds ?state') + ?g (?rem tc)
              = (\<Sum>col\<leftarrow>?cols1. ?g col) + ?g (?insf (?rem tc))"
        by (simp add: mset_allCardIds cols)
      also have "?g (?insf (?rem tc)) = ?g (?rem tc) + {#cardId#}"
        using mset_spliceInsert[of newIndex c "items (?rem tc)"] cid by simp
      finally have "mset (allCardIds ?state') = (\<Sum>col\<leftarrow>?cols1. ?g col) + {#cardId#}"
        by (simp add: ac_simps)
      with m1 have m: "mset (allCardIds ?state') = mset (allCardIds state) + {#}" by simp
      from di have d: "distinct ([] @ allCardIds state)" by simp
      from wfBoard_from_mset[OF ids m d _ dc] show ?thesis by simp
    qed
  qed
qed

lemma reorderCardsInColumn_conserves:
  assumes wf: "wfBoard state"
      and once: "\<forall>column\<in>set (columns state). col_id column = columnId \<longrightarrow>
                   (\<forall>c\<in>set (items column). count_list cardIds (card_id c) = 1)"
  shows "wfBoard (reorderCardsInColumn columnId cardIds state)
         \<and> set (allCardIds state)
             \<subseteq> set (allCardIds (reorderCardsInColumn columnId cardIds state))"
proof -
  let ?state' = "reorderCardsInColumn columnId cardIds state"
  let ?f = "\<lambda>column. column\<lparr>items := mapFindFilter card_id (items column) cardIds\<rparr>"
  let ?g = "\<lambda>column::ColumnType. mset (map card_id (items column))"
  from wf have dc: "distinct (map col_id (columns state))"
    and di: "distinct (allCardIds state)" by (simp_all add: wfBoard_def)
  have cols: "columns ?state' = map (\<lambda>c. if col_id c = columnId then ?f c else c) (columns state)"
    by (simp add: reorderCardsInColumn_def)
  have ids: "map col_id (columns ?state') = map col_id (columns state)"
    by (simp add: cols comp_def if_distrib cong: if_cong)
  show ?thesis
  proof (cases "find (\<lambda>c. col_id c = columnId) (columns state)")
    case None
    then have "columnId \<notin> col_id ` set (columns state)" by (simp add: find_key_None)
    from map_other_id[OF this, of ?f] cols have "columns ?state' = columns state" by simp
    then have "allCardIds ?state' = allCardIds state" by (simp add: allCardIds_def)
    with wf ids show ?thesis by (simp add: wfBoard_def)
  next
    case (Some col)
    from find_key_Some[OF Some] have cid: "col_id col = columnId" and mem: "col \<in> set (columns state)"
      by simp_all
    from column_ids_distinct[OF di mem] have dcol: "distinct (map card_id (items col))" .
    from once cid mem have "\<forall>c\<in>set (items col). count_list cardIds (card_id c) = 1" by blast
    from mset_reordered[OF dcol this] have same: "?g (?f col) = ?g col" by simp
    from sum_update_one[OF dc Some, where f = ?f and g = ?g]
    have "mset (allCardIds ?state') + ?g col = mset (allCardIds state) + ?g (?f col)"
      by (simp add: mset_allCardIds cols)
    with same have m: "mset (allCardIds ?state') = mset (allCardIds state) + {#}" by simp
    from di have d: "distinct ([] @ allCardIds state)" by simp
    from wfBoard_from_mset[OF ids m d _ dc] show ?thesis by simp
  qed
qed

lemma conservingCall_step:
  assumes "wfBoard state" and "conservingCall call state"
  shows "wfBoard (dispatch call state)
         \<and> set (allCardIds state) \<subseteq> set (allCardIds (dispatch call state))"
proof (cases call)
  case (AddCard columnId title now)
  with assms addCard_conserves[of state now columnId title] show ?thesis by simp
next
  case (MoveCard cardId fromColumnId toColumnId newIndex)
  with assms moveCard_conserves[of state toColumnId cardId fromColumnId newIndex]
  show ?thesis by simp
next
  case (ReorderCardsInColumn columnId cardIds)
  with assms reorderCardsInColumn_conserves[of state columnId cardIds] show ?thesis by simp
next
  case (AddColumn title now)
  with assms show ?thesis by simp
next
  case (DeleteColumn columnId)
  with assms show ?thesis by simp
next
  case (ReorderColumns columnIds)
  with assms show ?thesis by simp
qed

lemma conservingCalls_run:
  "wfBoard state \<Longrightarrow> conservingCalls calls state \<Longrightarrow>
     wfBoard (dispatchAll calls state)
     \<and> set (allCardIds state) \<subseteq> set (allCardIds (dispatchAll calls state))"
proof (induction calls arbitrary: state)
  case Nil
  then show ?case by simp
next
  case (Cons c cs)
  from Cons.prems have ok: "conservingCall c state" and rest: "conservingCalls cs (dispatch c state)"
    by simp_all
  from conservingCall_step[OF Cons.prems(1) ok]
  have wf1: "wfBoard (dispatch c state)"
    and sub1: "set (allCardIds state) \<subseteq> set (allCardIds (dispatch c state))" by simp_all
  from Cons.IH[OF wf1 rest] sub1 show ?case by auto
qed

lemma sum_filter_split:
  fixes g :: "ColumnType \<Rightarrow> int multiset"
  shows "(\<Sum>c\<leftarrow>cols. g c)
           = (\<Sum>c\<leftarrow>filter (\<lambda>column. col_id column \<noteq> x) cols. g c)
             + (\<Sum>c\<leftarrow>filter (\<lambda>column. col_id column = x) cols. g c)"
proof (induction cols)
  case Nil
  show ?case by simp
next
  case (Cons a cols)
  show ?case
  proof (cases "col_id a = x")
    case True
    then show ?thesis by (simp add: Cons.IH)
  next
    case False
    then show ?thesis by (simp add: Cons.IH)
  qed
qed

lemma deleteColumn_split:
  "mset (allCardIds state)
     = mset (allCardIds (deleteColumn columnId state))
       + mset (concat (map (\<lambda>column. map card_id (items column))
                         (filter (\<lambda>column. col_id column = columnId) (columns state))))"
proof -
  let ?g = "\<lambda>column::ColumnType. mset (map card_id (items column))"
  have 1: "mset (allCardIds state) = (\<Sum>c\<leftarrow>columns state. ?g c)"
    by (rule mset_allCardIds)
  have 2: "mset (allCardIds (deleteColumn columnId state))
             = (\<Sum>c\<leftarrow>filter (\<lambda>column. col_id column \<noteq> columnId) (columns state). ?g c)"
    by (simp add: mset_allCardIds deleteColumn_def)
  have 3: "mset (concat (map (\<lambda>column. map card_id (items column))
                         (filter (\<lambda>column. col_id column = columnId) (columns state))))
             = (\<Sum>c\<leftarrow>filter (\<lambda>column. col_id column = columnId) (columns state). ?g c)"
    by (simp add: mset_concat comp_def)
  show ?thesis
    unfolding 1 2 3 by (rule sum_filter_split)
qed

lemma distinct_concat_filter:
  "distinct (concat (map h xs)) \<Longrightarrow> distinct (concat (map h (filter P xs)))"
  by (induction xs) auto

lemma deleteColumn_wfBoard: "wfBoard state \<Longrightarrow> wfBoard (deleteColumn columnId state)"
  by (simp add: wfBoard_def deleteColumn_def allCardIds_def distinct_concat_filter
        distinct_map_filter)

text \<open>
  Claim C1, amended. On a board with pairwise distinct column ids whose card ids
  occur once each, every sequence of \<open>addCard\<close>, \<open>moveCard\<close> and
  \<open>reorderCardsInColumn\<close> calls in which each \<open>addCard\<close> gets a clock reading that is
  no card id yet, each \<open>moveCard\<close> names a destination column that exists and each
  \<open>reorderCardsInColumn\<close> lists every card id of its column once, leaves a board of the
  same kind on which every card id of the start is still present: in one column,
  once. \<open>deleteColumn\<close> splits the card ids of the board into those that stay and
  those of the deleted column, so it removes just the latter, and it keeps the ids
  distinct.
\<close>

theorem card_ids_conserved:
  "(wfBoard state \<and> conservingCalls calls state \<longrightarrow>
      wfBoard (dispatchAll calls state)
      \<and> set (allCardIds state) \<subseteq> set (allCardIds (dispatchAll calls state)))
   \<and> mset (allCardIds state)
       = mset (allCardIds (deleteColumn columnId state))
         + mset (concat (map (\<lambda>column. map card_id (items column))
                           (filter (\<lambda>column. col_id column = columnId) (columns state))))
   \<and> (wfBoard state \<longrightarrow> wfBoard (deleteColumn columnId state))"
  using conservingCalls_run[of state calls] deleteColumn_split[of state columnId]
    deleteColumn_wfBoard[of state columnId]
  by (intro conjI impI) simp_all

theorem card_ids_conserved_witness:
  "wfBoard scenarioBoard
   \<and> conservingCalls
        [MoveCard 101 1 2 0, ReorderCardsInColumn 1 [102], AddCard 2 ''New'' 1700000000000]
        scenarioBoard
   \<and> wfBoard (dispatchAll
        [MoveCard 101 1 2 0, ReorderCardsInColumn 1 [102], AddCard 2 ''New'' 1700000000000]
        scenarioBoard)
   \<and> set (allCardIds scenarioBoard)
       \<subseteq> set (allCardIds (dispatchAll
            [MoveCard 101 1 2 0, ReorderCardsInColumn 1 [102], AddCard 2 ''New'' 1700000000000]
            scenarioBoard))
   \<and> wfBoard (deleteColumn 1 scenarioBoard)"
proof -
  let ?calls = "[MoveCard 101 1 2 0, ReorderCardsInColumn 1 [102], AddCard 2 ''New'' 1700000000000]"
  have h1: "wfBoard scenarioBoard"
    by (simp add: wfBoard_def allCardIds_def scenarioBoard_def plainCard_def)
  have h2: "conservingCalls ?calls scenarioBoard"
    by (simp add: scenarioBoard_def plainCard_def moveCard_def reorderCardsInColumn_def
          spliceInsert_def spliceStart_def mapFindFilter_def allCardIds_def)
  from card_ids_conserved [of scenarioBoard ?calls 1] h1 h2 show ?thesis by blast
qed

text \<open>
  The claim as it is worded, for every sequence of calls, fails: an id list that
  leaves out a card of the column drops the card, and one that names a card twice
  doubles it.
\<close>

theorem card_ids_conserved_counterexample:
  "allCardIds scenarioBoard = [101, 102]
   \<and> allCardIds (dispatchAll [ReorderCardsInColumn 1 [102]] scenarioBoard) = [102]
   \<and> allCardIds (dispatchAll [ReorderCardsInColumn 1 [101, 101, 102]] scenarioBoard)
       = [101, 101, 102]"
  by (simp add: allCardIds_def scenarioBoard_def plainCard_def reorderCardsInColumn_def
        mapFindFilter_def)

section \<open>The ids of new cards and columns\<close>

lemma set_allCardIds_addCard:
  "set (allCardIds (addCard columnId title now state))
     = set (allCardIds state)
       \<union> (if columnId \<in> col_id ` set (columns state) then {now} else {})"
proof -
  let ?new = "\<lparr>card_id = now, card_title = title, card_description = None, card_comments = []\<rparr>"
  let ?f = "\<lambda>c. if col_id c = columnId then c\<lparr>items := items c @ [?new]\<rparr> else c"
  have cols: "columns (addCard columnId title now state) = map ?f (columns state)"
    by (simp add: addCard_def)
  have "(\<Union>c\<in>set (map ?f cols). card_id ` set (items c))
          = (\<Union>c\<in>set cols. card_id ` set (items c))
            \<union> (if columnId \<in> col_id ` set cols then {now} else {})"
    for cols :: "ColumnType list"
    by (induction cols) auto
  from this[of "columns state"] show ?thesis
    unfolding set_allCardIds cols .
qed

lemma col_ids_addCard:
  "map col_id (columns (addCard columnId title now state)) = map col_id (columns state)"
  by (simp add: addCard_def comp_def if_distrib cong: if_cong)

text \<open>
  Claim C9, amended. The id that \<open>addCard\<close> gives the new card and \<open>addColumn\<close> the new
  column is the clock reading \<open>now\<close> of the call: the new column is appended with
  that id, and the new card is appended with that id to the column named. When the
  ids of the board are pairwise distinct and the clock reading is none of them, they
  are pairwise distinct afterwards as well, so the new id collides with no card or
  column id.
\<close>

theorem new_id_is_clock_reading:
  "columns (addColumn title now state)
     = columns state @ [\<lparr>col_id = now, col_title = title, items = []\<rparr>]
   \<and> (find (\<lambda>col. col_id col = columnId) (columns state) = Some column \<longrightarrow>
        find (\<lambda>col. col_id col = columnId) (columns (addCard columnId title now state))
          = Some (column\<lparr>items := items column @
                    [\<lparr>card_id = now, card_title = title,
                      card_description = None, card_comments = []\<rparr>]\<rparr>))
   \<and> (distinct (allIds state) \<and> now \<notin> set (allIds state) \<longrightarrow>
        distinct (allIds (addColumn title now state))
        \<and> distinct (allIds (addCard columnId title now state)))"
proof -
  let ?new = "\<lparr>card_id = now, card_title = title, card_description = None, card_comments = []\<rparr>"
  let ?f = "\<lambda>c. if col_id c = columnId then c\<lparr>items := items c @ [?new]\<rparr> else c"
  have 1: "columns (addColumn title now state)
     = columns state @ [\<lparr>col_id = now, col_title = title, items = []\<rparr>]"
    by (simp add: addColumn_def)
  have 2: "find (\<lambda>col. col_id col = columnId) (columns (addCard columnId title now state))
          = Some (column\<lparr>items := items column @ [?new]\<rparr>)"
    if f: "find (\<lambda>col. col_id col = columnId) (columns state) = Some column"
  proof -
    have k: "\<And>c. col_id (?f c) = col_id c" by simp
    have "columns (addCard columnId title now state) = map ?f (columns state)"
      by (simp add: addCard_def)
    with find_map_same_key[of col_id ?f columnId "columns state", OF k] f
    have "find (\<lambda>col. col_id col = columnId) (columns (addCard columnId title now state))
            = Some (?f column)" by simp
    with find_key_Some[OF f] show ?thesis by simp
  qed
  have 3: "distinct (allIds (addColumn title now state))
        \<and> distinct (allIds (addCard columnId title now state))"
    if d: "distinct (allIds state)" and fresh: "now \<notin> set (allIds state)"
  proof
    have "allCardIds (addColumn title now state) = allCardIds state"
      by (simp add: allCardIds_def addColumn_def)
    with d fresh show "distinct (allIds (addColumn title now state))"
      by (auto simp: allIds_def addColumn_def)
  next
    from d have wf: "wfBoard state" by (simp add: allIds_def wfBoard_def)
    from fresh have fr: "now \<notin> set (allCardIds state)" by (simp add: allIds_def)
    from addCard_conserves[OF wf fr, of columnId title]
    have dn: "distinct (allCardIds (addCard columnId title now state))"
      by (simp add: wfBoard_def)
    from d have dc: "distinct (map col_id (columns state))"
      and dj: "set (map col_id (columns state)) \<inter> set (allCardIds state) = {}"
      by (simp_all add: allIds_def)
    from fresh have "now \<notin> set (map col_id (columns state))" by (simp add: allIds_def)
    with dj have "set (map col_id (columns state))
                    \<inter> set (allCardIds (addCard columnId title now state)) = {}"
      unfolding set_allCardIds_addCard by auto
    with dc dn show "distinct (allIds (addCard columnId title now state))"
      by (simp add: allIds_def col_ids_addCard)
  qed
  from 1 2 3 show ?thesis by blast
qed

theorem new_id_is_clock_reading_witness:
  "find (\<lambda>col. col_id col = 2) (columns scenarioBoard)
     = Some \<lparr>col_id = 2, col_title = ''Done'', items = []\<rparr>
   \<and> distinct (allIds scenarioBoard) \<and> 1700000000000 \<notin> set (allIds scenarioBoard)
   \<and> find (\<lambda>col. col_id col = 2) (columns (addCard 2 ''New'' 1700000000000 scenarioBoard))
       = Some \<lparr>col_id = 2, col_title = ''Done'', items = [plainCard 1700000000000 ''New'']\<rparr>
   \<and> distinct (allIds (addColumn ''New'' 1700000000000 scenarioBoard))
   \<and> distinct (allIds (addCard 2 ''New'' 1700000000000 scenarioBoard))"
proof -
  let ?done = "\<lparr>col_id = 2, col_title = ''Done'', items = []\<rparr>"
  have h1: "find (\<lambda>col. col_id col = 2) (columns scenarioBoard) = Some ?done"
    by (simp add: scenarioBoard_def)
  have h2: "distinct (allIds scenarioBoard)"
    by (simp add: allIds_def allCardIds_def scenarioBoard_def plainCard_def)
  have h3: "1700000000000 \<notin> set (allIds scenarioBoard)"
    by (simp add: allIds_def allCardIds_def scenarioBoard_def plainCard_def)
  note t = new_id_is_clock_reading [of "''New''" 1700000000000 scenarioBoard 2 ?done]
  from t h1 have a: "find (\<lambda>col. col_id col = 2)
       (columns (addCard 2 ''New'' 1700000000000 scenarioBoard))
       = Some \<lparr>col_id = 2, col_title = ''Done'', items = [plainCard 1700000000000 ''New'']\<rparr>"
    by (simp add: plainCard_def)
  from t h2 h3 have b: "distinct (allIds (addColumn ''New'' 1700000000000 scenarioBoard))
       \<and> distinct (allIds (addCard 2 ''New'' 1700000000000 scenarioBoard))"
    by blast
  from h1 h2 h3 a b show ?thesis by (intro conjI) simp_all
qed

text \<open>
  The claim as it is worded, for every board state, fails when the clock reading is
  an id of the board already, as it is for a second call within the same
  millisecond: both new cards get the same id, and a new column gets the id of a
  card.
\<close>

theorem new_id_collision_counterexample:
  "allCardIds (dispatchAll [AddCard 1 ''A'' 1700000000000, AddCard 2 ''B'' 1700000000000]
                 scenarioBoard)
     = [101, 102, 1700000000000, 1700000000000]
   \<and> allIds (dispatchAll [AddCard 1 ''A'' 1700000000000, AddColumn ''B'' 1700000000000]
                 scenarioBoard)
     = [1, 2, 1700000000000, 101, 102, 1700000000000]"
  by (simp add: allIds_def allCardIds_def scenarioBoard_def plainCard_def addCard_def
        addColumn_def)

section \<open>Migrating a version 0 snapshot\<close>

lemma map_of_setProp:
  "map_of (setProp k v kvs) k' = (if k' = k then Some v else map_of kvs k')"
  by (induction kvs) auto

lemma setProp_same: "map_of kvs k = Some v \<Longrightarrow> setProp k v kvs = kvs"
  by (induction kvs) (auto split: if_splits)

lemma setProp_twice: "setProp k v (setProp k v kvs) = setProp k v kvs"
  by (rule setProp_same) (simp add: map_of_setProp)

lemma getProp_JObj:
  "getProp k (JObj kvs) = Inr (case map_of kvs k of None \<Rightarrow> JUndefined | Some x \<Rightarrow> x)"
  by (simp add: getProp_def)

lemma getProp_setProp:
  "getProp k' (JObj (setProp k v kvs)) = (if k' = k then Inr v else getProp k' (JObj kvs))"
  by (simp add: getProp_JObj map_of_setProp)

lemma getProp_JArr_D:
  "getProp k v = Inr (JArr xs) \<Longrightarrow> \<exists>kvs. v = JObj kvs \<and> map_of kvs k = Some (JArr xs)"
  by (cases v) (auto simp: getProp_def split: option.splits)

lemma mapErr_Inr:
  "(\<And>x. x \<in> set xs \<Longrightarrow> f x = Inr (g x)) \<Longrightarrow> mapErr f xs = Inr (map g xs)"
  by (induction xs) simp_all

lemma migrateCard_ok:
  assumes "c \<noteq> JUndefined" and "c \<noteq> JNull"
  shows "migrateCard c = Inr (fixedCard c)"
  using assms
  by (cases c) (simp_all add: migrateCard_def fixedCard_def normalComments_def propOf_def getProp_def)

lemma propOf_comments_fixedCard:
  "propOf ''comments'' (fixedCard c) = normalComments (propOf ''comments'' c)"
  by (simp add: fixedCard_def propOf_def getProp_setProp)

lemma isArray_normalComments: "isArray (normalComments v)"
  by (simp add: normalComments_def isArray_def)

lemma migrateCard_fixedCard: "migrateCard (fixedCard c) = Inr (fixedCard c)"
proof -
  let ?v = "normalComments (propOf ''comments'' c)"
  have "getProp ''comments'' (fixedCard c) = Inr ?v"
    by (simp add: fixedCard_def getProp_setProp)
  moreover have "ownProps (fixedCard c) = setProp ''comments'' ?v (ownProps c)"
    by (simp add: fixedCard_def ownProps_def)
  ultimately show ?thesis
    using isArray_normalComments[of "propOf ''comments'' c"]
    by (simp add: migrateCard_def setProp_twice fixedCard_def)
qed

lemma fixedColumn_items:
  "getProp ''items'' (fixedColumn column)
     = Inr (JArr (map fixedCard (elems (propOf ''items'' column))))"
  by (simp add: fixedColumn_def getProp_setProp)

lemma migrateColumn_ok:
  assumes its: "getProp ''items'' column = Inr (JArr cards)"
      and ok: "\<forall>c\<in>set cards. c \<noteq> JUndefined \<and> c \<noteq> JNull"
  shows "migrateColumn column = Inr (fixedColumn column)"
proof -
  from ok have "mapErr migrateCard cards = Inr (map fixedCard cards)"
    by (intro mapErr_Inr migrateCard_ok) auto
  with its show ?thesis
    by (simp add: migrateColumn_def arrayMap_def fixedColumn_def propOf_def elems_def)
qed

lemma migrateColumn_fixedColumn: "migrateColumn (fixedColumn column) = Inr (fixedColumn column)"
proof -
  let ?cards = "map fixedCard (elems (propOf ''items'' column))"
  have "mapErr migrateCard ?cards = Inr (map (\<lambda>x. x) ?cards)"
    by (rule mapErr_Inr) (auto simp: migrateCard_fixedCard)
  then have m: "arrayMap migrateCard (JArr ?cards) = Inr ?cards"
    by (simp add: arrayMap_def)
  have o: "ownProps (fixedColumn column) = setProp ''items'' (JArr ?cards) (ownProps column)"
    by (simp add: fixedColumn_def ownProps_def)
  show ?thesis
    unfolding migrateColumn_def fixedColumn_items
    by (simp add: m o setProp_twice) (simp add: fixedColumn_def)
qed

lemma wellShapedD:
  assumes "wellShaped s"
  shows "\<exists>kvs cols. s = JObj kvs \<and> map_of kvs ''columns'' = Some (JArr cols)
    \<and> (\<forall>column\<in>set cols.
           \<exists>cards. getProp ''items'' column = Inr (JArr cards)
                 \<and> (\<forall>c\<in>set cards. c \<noteq> JUndefined \<and> c \<noteq> JNull))"
proof -
  from assms obtain cols where c: "getProp ''columns'' s = Inr (JArr cols)"
    and a: "list_all (\<lambda>column.
            case getProp ''items'' column of
              Inr (JArr cards) \<Rightarrow> list_all (\<lambda>c. c \<noteq> JUndefined \<and> c \<noteq> JNull) cards
            | _ \<Rightarrow> False) cols"
    by (auto simp: wellShaped_def split: sum.splits jsval.splits)
  from getProp_JArr_D[OF c] obtain kvs where k: "s = JObj kvs"
    "map_of kvs ''columns'' = Some (JArr cols)" by blast
  have "\<exists>cards. getProp ''items'' column = Inr (JArr cards)
                 \<and> (\<forall>c\<in>set cards. c \<noteq> JUndefined \<and> c \<noteq> JNull)"
    if "column \<in> set cols" for column
  proof -
    from a that have "case getProp ''items'' column of
              Inr (JArr cards) \<Rightarrow> list_all (\<lambda>c. c \<noteq> JUndefined \<and> c \<noteq> JNull) cards
            | _ \<Rightarrow> False"
      by (simp add: list_all_iff)
    then show ?thesis
      by (auto simp: list_all_iff split: sum.splits jsval.splits)
  qed
  with k show ?thesis by blast
qed

lemma elems_items_fixedColumn:
  "elems (propOf ''items'' (fixedColumn column))
     = map fixedCard (elems (propOf ''items'' column))"
  by (simp add: propOf_def fixedColumn_items elems_def)

text \<open>
  Claim C8. For a version 0 snapshot of the shape the store writes, whatever the
  cards' \<open>comments\<close> and the \<open>boardTitle\<close> are, \<open>migrate\<close> returns a state: the one that
  the version 0 to 1 step followed by the version 1 to 2 step gives. In it every
  card's \<open>comments\<close> is the array it was, or the empty array where it was no array;
  \<open>boardTitle\<close> is the title it was, or \<open>Demo Board\<close> where it was absent (or
  another falsy value), and so is populated. Migrating the migrated state again,
  from whatever version, returns it unchanged.
\<close>

theorem migrate_version_0:
  assumes "wellShaped s"
  shows "\<exists>s1 s'. migrateComments s = Inr s1 \<and> migrateBoardTitle s1 = Inr s'
           \<and> migrate s 0 = Inr s'
           \<and> map (propOf ''comments'') (snapshotCards s')
               = map (\<lambda>c. if isArray (propOf ''comments'' c) then propOf ''comments'' c
                           else JArr []) (snapshotCards s)
           \<and> propOf ''boardTitle'' s'
               = (if truthy (propOf ''boardTitle'' s) then propOf ''boardTitle'' s
                  else JStr ''Demo Board'')
           \<and> truthy (propOf ''boardTitle'' s')
           \<and> (\<forall>v. migrate s' v = Inr s')"
proof -
  from wellShapedD[OF assms] obtain kvs cols where s: "s = JObj kvs"
    and kc: "map_of kvs ''columns'' = Some (JArr cols)"
    and colsok': "\<forall>column\<in>set cols.
           \<exists>cards. getProp ''items'' column = Inr (JArr cards)
                 \<and> (\<forall>c\<in>set cards. c \<noteq> JUndefined \<and> c \<noteq> JNull)"
    by (elim exE conjE)
  from colsok' have colsok: "\<exists>cards. getProp ''items'' column = Inr (JArr cards)
                 \<and> (\<forall>c\<in>set cards. c \<noteq> JUndefined \<and> c \<noteq> JNull)"
    if "column \<in> set cols" for column
    using that by (rule bspec)
  define newCols where "newCols = JArr (map fixedColumn cols)"
  define kvs1 where "kvs1 = setProp ''columns'' newCols kvs"
  define t where "t = (if truthy (propOf ''boardTitle'' s) then propOf ''boardTitle'' s
                       else JStr ''Demo Board'')"
  define kvs2 where "kvs2 = setProp ''boardTitle'' t kvs1"
  have gc: "getProp ''columns'' s = Inr (JArr cols)"
    by (simp add: s getProp_JObj kc)
  have "migrateColumn column = Inr (fixedColumn column)" if "column \<in> set cols" for column
    using colsok[OF that] migrateColumn_ok[of column] by blast
  then have mc: "mapErr migrateColumn cols = Inr (map fixedColumn cols)"
    by (rule mapErr_Inr)
  have os: "ownProps s = kvs"
    by (simp add: s ownProps_def)
  have ps: "propOf ''boardTitle'' s = propOf ''boardTitle'' (JObj kvs)"
    by (simp add: s)
  have 1: "migrateComments s = Inr (JObj kvs1)"
    by (simp add: migrateComments_def gc arrayMap_def mc kvs1_def newCols_def os)
  have bt1: "getProp ''boardTitle'' (JObj kvs1) = Inr (propOf ''boardTitle'' s)"
  proof -
    have "getProp ''boardTitle'' (JObj kvs1) = getProp ''boardTitle'' (JObj kvs)"
      by (simp add: kvs1_def getProp_setProp)
    also have "\<dots> = Inr (propOf ''boardTitle'' (JObj kvs))"
      by (simp add: propOf_def getProp_JObj)
    finally show ?thesis by (simp only: ps)
  qed
  have 2: "migrateBoardTitle (JObj kvs1) = Inr (JObj kvs2)"
    by (simp add: migrateBoardTitle_def bt1 kvs2_def t_def ownProps_def)
  have 3: "migrate s 0 = Inr (JObj kvs2)"
    by (simp add: migrate_def 1 2)
  have tt: "truthy t"
    by (simp add: t_def truthy_def)
  have gt2: "getProp ''boardTitle'' (JObj kvs2) = Inr t"
    by (simp add: kvs2_def getProp_setProp)
  have gc2: "getProp ''columns'' (JObj kvs2) = Inr newCols"
    by (simp add: kvs2_def kvs1_def getProp_setProp)
  have cards: "snapshotCards (JObj kvs2) = map fixedCard (snapshotCards s)"
  proof -
    have "snapshotCards (JObj kvs2)
            = concat (map (\<lambda>column. elems (propOf ''items'' column)) (map fixedColumn cols))"
      by (simp add: snapshotCards_def propOf_def gc2 newCols_def elems_def)
    also have "\<dots> = concat (map (\<lambda>column. map fixedCard (elems (propOf ''items'' column))) cols)"
      by (simp add: comp_def elems_items_fixedColumn)
    also have "\<dots> = map fixedCard (concat (map (\<lambda>column. elems (propOf ''items'' column)) cols))"
      by (simp add: map_concat comp_def)
    also have "concat (map (\<lambda>column. elems (propOf ''items'' column)) cols) = snapshotCards s"
      by (simp add: snapshotCards_def propOf_def gc elems_def)
    finally show ?thesis .
  qed
  have 4: "map (propOf ''comments'') (snapshotCards (JObj kvs2))
               = map (\<lambda>c. if isArray (propOf ''comments'' c) then propOf ''comments'' c
                           else JArr []) (snapshotCards s)"
    by (simp add: cards comp_def propOf_comments_fixedCard normalComments_def)
  have 5: "propOf ''boardTitle'' (JObj kvs2) = t"
    by (simp add: propOf_def gt2)
  have again0: "migrateComments (JObj kvs2) = Inr (JObj kvs2)"
  proof -
    have "mapErr migrateColumn (map fixedColumn cols) = Inr (map (\<lambda>x. x) (map fixedColumn cols))"
      by (rule mapErr_Inr) (auto simp: migrateColumn_fixedColumn)
    then have m: "arrayMap migrateColumn newCols = Inr (map fixedColumn cols)"
      by (simp add: arrayMap_def newCols_def)
    have "map_of kvs2 ''columns'' = Some newCols"
      by (simp add: kvs2_def kvs1_def map_of_setProp)
    then have "setProp ''columns'' newCols kvs2 = kvs2" by (rule setProp_same)
    then show ?thesis
      by (simp add: migrateComments_def gc2 m ownProps_def newCols_def[symmetric])
  qed
  have again1: "migrateBoardTitle (JObj kvs2) = Inr (JObj kvs2)"
  proof -
    have "setProp ''boardTitle'' t kvs2 = kvs2"
      unfolding kvs2_def by (rule setProp_twice)
    with tt show ?thesis
      by (simp add: migrateBoardTitle_def gt2 ownProps_def)
  qed
  have 6: "\<forall>v. migrate (JObj kvs2) v = Inr (JObj kvs2)"
    by (simp add: migrate_def again0 again1)
  from 1 2 3 4 5 tt 6 show ?thesis
    unfolding t_def[symmetric] by (intro exI[of _ "JObj kvs1"] exI[of _ "JObj kvs2"]) simp
qed

theorem migrate_version_0_witness:
  "wellShaped oldSnapshot
   \<and> (\<exists>s'. migrate oldSnapshot 0 = Inr s'
          \<and> map (propOf ''comments'') (snapshotCards oldSnapshot) = [JObj []]
          \<and> map (propOf ''comments'') (snapshotCards s') = [JArr []]
          \<and> propOf ''boardTitle'' oldSnapshot = JUndefined
          \<and> propOf ''boardTitle'' s' = JStr ''Demo Board''
          \<and> migrate s' 0 = Inr s' \<and> migrate s' 2 = Inr s')"
proof -
  have h: "wellShaped oldSnapshot"
    by (simp add: wellShaped_def oldSnapshot_def getProp_def)
  have c0: "map (propOf ''comments'') (snapshotCards oldSnapshot) = [JObj []]"
    by (simp add: snapshotCards_def propOf_def getProp_def elems_def oldSnapshot_def)
  have c: "map (\<lambda>c. if isArray (propOf ''comments'' c) then propOf ''comments'' c else JArr [])
             (snapshotCards oldSnapshot) = [JArr []]"
    by (simp add: snapshotCards_def propOf_def getProp_def elems_def isArray_def oldSnapshot_def)
  have b0: "propOf ''boardTitle'' oldSnapshot = JUndefined"
    by (simp add: propOf_def getProp_def oldSnapshot_def)
  then have b: "(if truthy (propOf ''boardTitle'' oldSnapshot)
                 then propOf ''boardTitle'' oldSnapshot else JStr ''Demo Board'')
                = JStr ''Demo Board''"
    by (simp add: truthy_def)
  from migrate_version_0 [OF h] obtain s1 s' where
    m: "migrate oldSnapshot 0 = Inr s'"
    and mc: "map (propOf ''comments'') (snapshotCards s')
               = map (\<lambda>c. if isArray (propOf ''comments'' c) then propOf ''comments'' c
                           else JArr []) (snapshotCards oldSnapshot)"
    and mb: "propOf ''boardTitle'' s'
               = (if truthy (propOf ''boardTitle'' oldSnapshot)
                  then propOf ''boardTitle'' oldSnapshot else JStr ''Demo Board'')"
    and again: "\<forall>v. migrate s' v = Inr s'"
    by (elim exE conjE)
  from mc c have mc': "map (propOf ''comments'') (snapshotCards s') = [JArr []]"
    by (simp only:)
  from mb b have mb': "propOf ''boardTitle'' s' = JStr ''Demo Board''"
    by (simp only:)
  from again have a0: "migrate s' 0 = Inr s'" and a2: "migrate s' 2 = Inr s'"
    by simp_all
  from h m c0 mc' b0 mb' a0 a2 show ?thesis
    by (intro conjI exI[of _ s'])
qed

end
